theory Spec2Isabelle
  imports Complex_Main "HOL-Library.Multiset"
begin

section \<open>The scene of the board designer\<close>

text \<open>
  The model follows \<^verbatim>\<open>client/src/pages/designer.tsx\<close>. The component keeps its
  scene in \<^verbatim>\<open>useState\<close> cells; here they are the fields of one record that every
  operation takes and returns. Each handler is modelled as one synchronous call against
  the committed state, which is how React runs it between two renders.

  JavaScript numbers that carry a position, a size, an angle or a width are \<open>real\<close>:
  the source computes with them in doubles, the model exactly.
  \<^verbatim>\<open>layer\<close> is an integer ordering key and is an \<open>int\<close>; the one place where the
  source computes with it, the \<^verbatim>\<open>+ 1\<close> of creation, rounds as the double does. A
  string is a list of code units below 256. A \<^verbatim>\<open>string | null\<close>
  or an optional field is an \<open>option\<close>. The fields \<^verbatim>\<open>id\<close>, \<^verbatim>\<open>x\<close> and
  \<^verbatim>\<open>y\<close> of a text element are written \<open>te_id\<close>, \<open>te_x\<close> and \<open>te_y\<close>,
  and the state cell \<^verbatim>\<open>fontFamily\<close> is \<open>fontFamily_st\<close>, to keep them apart
  from the constants and the element field of the same name.
\<close>

record TextElement =
  te_id :: string
  content :: string
  te_x :: real
  te_y :: real
  fontSize :: real
  color :: string
  fontFamily :: string
  strokeWidth :: real
  strokeColor :: "string option"
  layer :: int

datatype TextStroke = StrokeNone | StrokeThin | StrokeThick

record Toast =
  title :: string
  description :: string
  destructive :: bool

type_synonym Blob = string

text \<open>An entry of a zip archive is a folder or a file with its content.\<close>

datatype ZipEntry = ZipDir | ZipBlob Blob

type_synonym Archive = "(string \<times> ZipEntry) list"

datatype Payload = PngFile Blob | ZipFile Archive

record Download =
  filename :: string
  payload :: Payload

record Scene =
  backgroundColor :: string
  showGuides :: bool
  imageUrl :: string
  imageScale :: real
  imageRotation :: real
  imageOpacity :: real
  imageFlipped :: bool
  imagePosition :: "real \<times> real"
  imageLayer :: int
  textElements :: "TextElement list"
  selectedTextId :: "string option"
  textInput :: string
  textSize :: real
  textColor :: string
  fontFamily_st :: string
  textStroke :: TextStroke
  designName :: string
  batchExportOpen :: bool
  batchColors :: "string list"
  batchExporting :: bool
  toasts :: "Toast list"
  downloads :: "Download list"

definition initialScene :: Scene where
  "initialScene =
     \<lparr>backgroundColor = ''#ffffff'', showGuides = True, imageUrl = '''', imageScale = 100,
      imageRotation = 0, imageOpacity = 100, imageFlipped = False, imagePosition = (8, 20),
      imageLayer = 0,
      textElements = [], selectedTextId = None, textInput = '''', textSize = 6,
      textColor = ''#0f172a'', fontFamily_st = ''Impact'', textStroke = StrokeNone,
      designName = '''', batchExportOpen = False, batchColors = [''#ffffff''],
      batchExporting = False, toasts = [], downloads = []\<rparr>"

subsection \<open>Helpers of the host language\<close>

text \<open>\<^verbatim>\<open>Number.prototype.toString\<close> on a non-negative integer: its decimal digits.\<close>

definition digit_char :: "nat \<Rightarrow> char" where
  "digit_char d = ''0123456789'' ! d"

function toString :: "nat \<Rightarrow> string" where
  "toString n = (if n < 10 then [digit_char n] else toString (n div 10) @ [digit_char (n mod 10)])"
  by pat_completeness auto
termination
  by (relation "measure (\<lambda>n. n)") auto

declare toString.simps [simp del]

text \<open>
  \<^verbatim>\<open>String.prototype.trim\<close>: white space and line terminators are stripped at both
  ends. Among the code units below 256 these are tab, line feed, vertical tab, form
  feed, carriage return, space and the no-break space U+00A0.
\<close>

definition is_space :: "char \<Rightarrow> bool" where
  "is_space c =
     (c \<in> set [CHR 0x09, CHR 0x0A, CHR 0x0B, CHR 0x0C, CHR 0x0D, CHR 0x20, CHR 0xA0])"

definition trim :: "string \<Rightarrow> string" where
  "trim str = rev (dropWhile is_space (rev (dropWhile is_space str)))"

text \<open>
  \<^verbatim>\<open>Math.max(...xs)\<close>. The source calls it only behind a guard
  \<^verbatim>\<open>textElements.length > 0\<close>, so the empty case (\<^verbatim>\<open>-Infinity\<close>) is never read.
\<close>

definition Math_max :: "int list \<Rightarrow> int" where
  "Math_max xs = Max (set xs)"

text \<open>
  \<^verbatim>\<open>n + 1\<close> on a number that holds the integer \<open>n\<close>. The sum is exact while its
  magnitude stays within \<open>2^53\<close>. Beyond, consecutive doubles are 2 apart up to
  \<open>2^54\<close>, where the sum lies halfway between two doubles and goes to the one with
  the even significand, and at least 4 apart after that, where the sum goes back to
  \<open>n\<close>.
\<close>

definition add_one :: "int \<Rightarrow> int" where
  "add_one n =
     (if \<bar>n\<bar> < 2 ^ 53 \<or> n = - (2 ^ 53) then n + 1
      else if \<bar>n\<bar> < 2 ^ 54 \<and> odd (n div 2) then n + 2
      else n)"

subsection \<open>Creating and deleting elements\<close>

definition stroke_width_box :: "TextStroke \<Rightarrow> real" where
  "stroke_width_box st = (if st = StrokeNone then 0 else if st = StrokeThin then 0.5 else 1)"

definition stroke_width_elem :: "TextStroke \<Rightarrow> real" where
  "stroke_width_elem st = (if st = StrokeNone then 0 else if st = StrokeThin then 0.3 else 0.6)"

text \<open>\<^verbatim>\<open>addTextBox\<close>; the argument \<open>now\<close> is the reading of \<^verbatim>\<open>Date.now()\<close>.\<close>

definition addTextBox :: "nat \<Rightarrow> Scene \<Rightarrow> Scene" where
  "addTextBox now s =
     (let maxLayer = (if length (textElements s) > 0
                      then Math_max (map layer (textElements s)) else - 1);
          newText = \<lparr>te_id = toString now, content = ''New Text'', te_x = 16, te_y = 50,
                     fontSize = 6, color = textColor s, fontFamily = fontFamily_st s,
                     strokeWidth = stroke_width_box (textStroke s),
                     strokeColor = (if textStroke s = StrokeNone then None else Some ''#ffffff''),
                     layer = add_one maxLayer\<rparr>
      in s\<lparr>textElements := textElements s @ [newText],
            selectedTextId := Some (te_id newText),
            textInput := content newText\<rparr>)"

text \<open>\<^verbatim>\<open>addTextElement\<close>, with its early return on an input that trims to nothing.\<close>

definition addTextElement :: "nat \<Rightarrow> Scene \<Rightarrow> Scene" where
  "addTextElement now s =
     (if trim (textInput s) = [] then
        s\<lparr>toasts := toasts s @
             [\<lparr>title = ''Enter some text'',
               description = ''Please enter text before adding it to the board.'',
               destructive = True\<rparr>]\<rparr>
      else
        (let maxLayer = (if length (textElements s) > 0
                         then Math_max (map layer (textElements s)) else - 1);
             newElement = \<lparr>te_id = ''text-'' @ toString now, content = textInput s,
                           te_x = 16, te_y = 52.5, fontSize = textSize s, color = textColor s,
                           fontFamily = fontFamily_st s,
                           strokeWidth = stroke_width_elem (textStroke s),
                           strokeColor = (if textColor s = ''#ffffff'' then Some ''#000000''
                                          else Some ''#ffffff''),
                           layer = add_one maxLayer\<rparr>
         in s\<lparr>textElements := textElements s @ [newElement],
               selectedTextId := Some (te_id newElement),
               textInput := ''''\<rparr>))"

text \<open>\<^verbatim>\<open>deleteTextBox\<close>: the remaining layers are not renumbered.\<close>

definition deleteTextBox :: "string \<Rightarrow> Scene \<Rightarrow> Scene" where
  "deleteTextBox i s =
     (let s' = s\<lparr>textElements := filter (\<lambda>t. te_id t \<noteq> i) (textElements s)\<rparr>
      in if selectedTextId s = Some i then s'\<lparr>selectedTextId := None, textInput := ''''\<rparr>
         else s')"

text \<open>
  The success branch of the upload (\<^verbatim>\<open>uploadMutation.onSuccess\<close>): the image becomes
  present by getting a source; \<^verbatim>\<open>imageLayer\<close> is not touched.
\<close>

definition addImage :: "string \<Rightarrow> Scene \<Rightarrow> Scene" where
  "addImage publicURL s =
     s\<lparr>imageUrl := publicURL,
       toasts := toasts s @
         [\<lparr>title = ''Image uploaded!'',
           description = ''Your artwork has been added to the board.'',
           destructive = False\<rparr>]\<rparr>"

subsection \<open>The layer ordering operations\<close>

datatype ElemType = TextT | ImageT

record LayerRef =
  ref_id :: string
  ref_layer :: int
  ref_type :: ElemType

text \<open>The list \<^verbatim>\<open>allElementLayers\<close> of the text moves: every text, then the image.\<close>

definition allElementLayers :: "TextElement list \<Rightarrow> int \<Rightarrow> LayerRef list" where
  "allElementLayers prev il =
     map (\<lambda>t. \<lparr>ref_id = te_id t, ref_layer = layer t, ref_type = TextT\<rparr>) prev
       @ [\<lparr>ref_id = ''image'', ref_layer = il, ref_type = ImageT\<rparr>]"

text \<open>
  \<^verbatim>\<open>Array.prototype.sort\<close> is stable; with the comparator
  \<^verbatim>\<open>(a, b) => a.layer - b.layer\<close> it is \<open>sort_key ref_layer\<close>, and with
  \<^verbatim>\<open>(a, b) => b.layer - a.layer\<close> it is \<open>sort_key\<close> on the negated layer.
  Returning \<^verbatim>\<open>prev\<close> from the updater leaves the whole state as it was.
\<close>

definition moveLayerUp :: "string \<Rightarrow> Scene \<Rightarrow> Scene" where
  "moveLayerUp i s =
     (let prev = textElements s in
      case find (\<lambda>t. te_id t = i) prev of
        None \<Rightarrow> s
      | Some element \<Rightarrow>
          (case sort_key ref_layer
                  (filter (\<lambda>e. ref_layer e > layer element)
                     (allElementLayers prev (imageLayer s))) of
             [] \<Rightarrow> s
           | nextHigher # _ \<Rightarrow>
               (let targetLayer = ref_layer nextHigher;
                    s' = (if ref_type nextHigher = ImageT
                          then s\<lparr>imageLayer := layer element\<rparr> else s)
                in s'\<lparr>textElements :=
                        map (\<lambda>t. if te_id t = i then t\<lparr>layer := targetLayer\<rparr>
                                  else if layer t = targetLayer \<and> te_id t \<noteq> i
                                       then t\<lparr>layer := layer element\<rparr>
                                  else t) prev\<rparr>)))"

definition moveLayerDown :: "string \<Rightarrow> Scene \<Rightarrow> Scene" where
  "moveLayerDown i s =
     (let prev = textElements s in
      case find (\<lambda>t. te_id t = i) prev of
        None \<Rightarrow> s
      | Some element \<Rightarrow>
          (case sort_key (\<lambda>e. - ref_layer e)
                  (filter (\<lambda>e. ref_layer e < layer element)
                     (allElementLayers prev (imageLayer s))) of
             [] \<Rightarrow> s
           | nextLower # _ \<Rightarrow>
               (let targetLayer = ref_layer nextLower;
                    s' = (if ref_type nextLower = ImageT
                          then s\<lparr>imageLayer := layer element\<rparr> else s)
                in s'\<lparr>textElements :=
                        map (\<lambda>t. if te_id t = i then t\<lparr>layer := targetLayer\<rparr>
                                  else if layer t = targetLayer \<and> te_id t \<noteq> i
                                       then t\<lparr>layer := layer element\<rparr>
                                  else t) prev\<rparr>)))"

text \<open>
  The image moves scan the texts only; their list holds pairs of an id and a layer.
\<close>

definition moveImageLayerUp :: "Scene \<Rightarrow> Scene" where
  "moveImageLayerUp s =
     (case sort_key snd
             (filter (\<lambda>e. snd e > imageLayer s)
                (map (\<lambda>t. (te_id t, layer t)) (textElements s))) of
        [] \<Rightarrow> s
      | nextHigher # _ \<Rightarrow>
          (let targetLayer = snd nextHigher; oldImageLayer = imageLayer s
           in s\<lparr>imageLayer := targetLayer,
                 textElements :=
                   map (\<lambda>t. if te_id t = fst nextHigher then t\<lparr>layer := oldImageLayer\<rparr> else t)
                     (textElements s)\<rparr>))"

definition moveImageLayerDown :: "Scene \<Rightarrow> Scene" where
  "moveImageLayerDown s =
     (case sort_key (\<lambda>e. - snd e)
             (filter (\<lambda>e. snd e < imageLayer s)
                (map (\<lambda>t. (te_id t, layer t)) (textElements s))) of
        [] \<Rightarrow> s
      | nextLower # _ \<Rightarrow>
          (let targetLayer = snd nextLower; oldImageLayer = imageLayer s
           in s\<lparr>imageLayer := targetLayer,
                 textElements :=
                   map (\<lambda>t. if te_id t = fst nextLower then t\<lparr>layer := oldImageLayer\<rparr> else t)
                     (textElements s)\<rparr>))"

subsection \<open>Sequences of user actions\<close>

datatype Op =
    AddImage string
  | AddTextBox nat
  | AddTextElement nat
  | DeleteTextBox string
  | MoveLayerUp string
  | MoveLayerDown string
  | MoveImageLayerUp
  | MoveImageLayerDown

fun apply_op :: "Op \<Rightarrow> Scene \<Rightarrow> Scene" where
  "apply_op (AddImage u) s = addImage u s"
| "apply_op (AddTextBox now) s = addTextBox now s"
| "apply_op (AddTextElement now) s = addTextElement now s"
| "apply_op (DeleteTextBox i) s = deleteTextBox i s"
| "apply_op (MoveLayerUp i) s = moveLayerUp i s"
| "apply_op (MoveLayerDown i) s = moveLayerDown i s"
| "apply_op MoveImageLayerUp s = moveImageLayerUp s"
| "apply_op MoveImageLayerDown s = moveImageLayerDown s"

definition run :: "Op list \<Rightarrow> Scene \<Rightarrow> Scene" where
  "run ops s = fold apply_op ops s"

text \<open>
  The layers that the moves order. The list \<^verbatim>\<open>allElementLayers\<close> of the text
  moves and the list \<^verbatim>\<open>allLayers\<close> that enables the move buttons hold every
  text's layer and \<^verbatim>\<open>imageLayer\<close>; neither reads \<^verbatim>\<open>imageUrl\<close>, so the image's
  layer takes part in the order whether or not an image is loaded.
\<close>

definition ordering_layers :: "Scene \<Rightarrow> int list" where
  "ordering_layers s = map layer (textElements s) @ [imageLayer s]"

text \<open>
  The layers of the elements that the scene holds: every text, and the image when one
  is loaded, which is when the compositor pushes an entry for it.
\<close>

definition all_layers :: "Scene \<Rightarrow> int list" where
  "all_layers s = map layer (textElements s) @ (if imageUrl s \<noteq> [] then [imageLayer s] else [])"

text \<open>
  The spec's \<^verbatim>\<open>moveUp(elementId)\<close> and \<^verbatim>\<open>moveDown(elementId)\<close> are served by two
  pairs of handlers in the source, one for a text and one for the image. An element is
  named by a text's id or is the image.
\<close>

datatype ElemRef = TextRef string | ImageRef

fun moveUp :: "ElemRef \<Rightarrow> Scene \<Rightarrow> Scene" where
  "moveUp (TextRef i) s = moveLayerUp i s"
| "moveUp ImageRef s = moveImageLayerUp s"

fun moveDown :: "ElemRef \<Rightarrow> Scene \<Rightarrow> Scene" where
  "moveDown (TextRef i) s = moveLayerDown i s"
| "moveDown ImageRef s = moveImageLayerDown s"

text \<open>
  The entries of the order, and the layer of each: the texts by id, and the image. A
  text is looked up as the moves do, by \<^verbatim>\<open>find\<close>.
\<close>

definition ordering_entries :: "Scene \<Rightarrow> ElemRef list" where
  "ordering_entries s = map (\<lambda>t. TextRef (te_id t)) (textElements s) @ [ImageRef]"

fun entry_layer :: "Scene \<Rightarrow> ElemRef \<Rightarrow> int option" where
  "entry_layer s (TextRef i) = map_option layer (find (\<lambda>t. te_id t = i) (textElements s))"
| "entry_layer s ImageRef = Some (imageLayer s)"

text \<open>
  The elements that the scene holds, and the layer of each: the image is one of them
  when it is loaded.
\<close>

definition elements :: "Scene \<Rightarrow> ElemRef list" where
  "elements s =
     map (\<lambda>t. TextRef (te_id t)) (textElements s) @ (if imageUrl s \<noteq> [] then [ImageRef] else [])"

fun layer_of :: "Scene \<Rightarrow> ElemRef \<Rightarrow> int option" where
  "layer_of s (TextRef i) = map_option layer (find (\<lambda>t. te_id t = i) (textElements s))"
| "layer_of s ImageRef = (if imageUrl s \<noteq> [] then Some (imageLayer s) else None)"

text \<open>
  What a pairwise swap is, in the words of the specification: between the scenes \<open>s\<close>
  and \<open>s'\<close> the entries of the order are the same, \<open>X\<close> and \<open>Y\<close> are two of them
  and have exchanged their layers, every other entry has kept its layer, and the multiset
  of all layers is the same.
\<close>

definition exchanged :: "Scene \<Rightarrow> Scene \<Rightarrow> ElemRef \<Rightarrow> ElemRef \<Rightarrow> bool" where
  "exchanged s s' X Y \<longleftrightarrow>
     X \<noteq> Y \<and> ordering_entries s' = ordering_entries s
     \<and> entry_layer s' X = entry_layer s Y \<and> entry_layer s' Y = entry_layer s X
     \<and> (\<forall>Z\<in>set (ordering_entries s). Z \<noteq> X \<and> Z \<noteq> Y \<longrightarrow> entry_layer s' Z = entry_layer s Z)
     \<and> mset (ordering_layers s') = mset (ordering_layers s)"

subsection \<open>The scene compositor\<close>

record LayerElement =
  le_type :: ElemType
  le_layer :: int
  le_data :: "TextElement option"

text \<open>
  The entries pushed before the sort: the image when \<^verbatim>\<open>imageUrl\<close> is truthy (a
  non-empty string), then one entry per text.
\<close>

definition layerEntries :: "Scene \<Rightarrow> LayerElement list" where
  "layerEntries s =
     (if imageUrl s \<noteq> [] then [\<lparr>le_type = ImageT, le_layer = imageLayer s, le_data = None\<rparr>]
      else [])
     @ map (\<lambda>t. \<lparr>le_type = TextT, le_layer = layer t, le_data = Some t\<rparr>) (textElements s)"

definition layerElements :: "Scene \<Rightarrow> LayerElement list" where
  "layerElements s = sort_key le_layer (layerEntries s)"

subsection \<open>The image on the board\<close>

text \<open>
  The image is drawn in a box of \<open>16\<close> by \<open>40\<close> board units, scaled by
  \<^verbatim>\<open>imageScale\<close> in percent; \<^verbatim>\<open>imagePosition\<close> is the centre that the box is to
  have on the board.
\<close>

definition imageWidth :: "Scene \<Rightarrow> real" where
  "imageWidth s = 16 * (imageScale s / 100)"

definition imageHeight :: "Scene \<Rightarrow> real" where
  "imageHeight s = 40 * (imageScale s / 100)"

definition imageCenterX :: "Scene \<Rightarrow> real" where
  "imageCenterX s = fst (imagePosition s)"

definition imageCenterY :: "Scene \<Rightarrow> real" where
  "imageCenterY s = snd (imagePosition s)"

definition imageX :: "Scene \<Rightarrow> real" where
  "imageX s = imageCenterX s - imageWidth s / 2"

definition imageY :: "Scene \<Rightarrow> real" where
  "imageY s = imageCenterY s - imageHeight s / 2"

text \<open>
  The value of the \<^verbatim>\<open>transform\<close> attribute, as the list of its three functions in
  the order in which the string names them.
\<close>

datatype Transform = Translate real real | Rotate real real real | Scale real real

definition imageTransform :: "Scene \<Rightarrow> Transform list" where
  "imageTransform s =
     [Translate (imageX s) (imageY s),
      Rotate (imageRotation s) (imageWidth s / 2) (imageHeight s / 2),
      Scale 1 (if imageFlipped s then - 1 else 1)]"

text \<open>
  What the renderer does with the attribute. Each function maps a point of the
  element's own coordinates; \<^verbatim>\<open>rotate(a cx cy)\<close> turns by \<open>a\<close> degrees about
  \<open>(cx, cy)\<close>. The functions of a list apply from the last to the first. The
  \<^verbatim>\<open>image\<close> element has no \<^verbatim>\<open>x\<close> and \<^verbatim>\<open>y\<close>, so its box lies at the origin
  of its own coordinates, with the width and height above, and its centre is the
  point at half the width and half the height.
\<close>

fun apply_transform :: "Transform \<Rightarrow> real \<times> real \<Rightarrow> real \<times> real" where
  "apply_transform (Translate tx ty) (x, y) = (x + tx, y + ty)"
| "apply_transform (Rotate a cx cy) (x, y) =
     (cx + (x - cx) * cos (a * pi / 180) - (y - cy) * sin (a * pi / 180),
      cy + (x - cx) * sin (a * pi / 180) + (y - cy) * cos (a * pi / 180))"
| "apply_transform (Scale sx sy) (x, y) = (sx * x, sy * y)"

definition to_board :: "Transform list \<Rightarrow> real \<times> real \<Rightarrow> real \<times> real" where
  "to_board ts p = foldr apply_transform ts p"

definition drawn_center :: "Scene \<Rightarrow> real \<times> real" where
  "drawn_center s = to_board (imageTransform s) (imageWidth s / 2, imageHeight s / 2)"

subsection \<open>The export pipeline\<close>

text \<open>
  The render surface and the canvas are outside the component. What they answer is a
  parameter of the model: whether \<^verbatim>\<open>svgRef.current\<close> is set, and what the conversion
  of the serialised surface to a PNG gives for the scene that the surface shows at that
  moment: a blob, or one of the two rejections of the promise.

  In \<^verbatim>\<open>exportMutation\<close> the surface tested on entry is the one serialised after the
  frame wait: the source serialises it with no second test. \<open>svgData\<close> stands for the
  serialisation of what the surface shows then, the scene with the guides hidden; it is
  converted only after the guide flag has been set back.
\<close>

datatype Raster = LoadFailed | BlobFailed | Png Blob

datatype ExportError = NoSvg | FailedToLoadImage | FailedToCreateBlob

definition raster_result :: "Raster \<Rightarrow> ExportError + Blob" where
  "raster_result r =
     (case r of LoadFailed \<Rightarrow> Inl FailedToLoadImage
              | BlobFailed \<Rightarrow> Inl FailedToCreateBlob
              | Png blob \<Rightarrow> Inr blob)"

definition mutationFn :: "bool \<Rightarrow> (Scene \<Rightarrow> Raster) \<Rightarrow> Scene \<Rightarrow> (ExportError + Blob) \<times> Scene" where
  "mutationFn mounted raster s =
     (if \<not> mounted then (Inl NoSvg, s)
      else
        (let originalShowGuides = showGuides s;
             s1 = s\<lparr>showGuides := False\<rparr>;
             svgData = s1;
             s2 = s1\<lparr>showGuides := originalShowGuides\<rparr>
         in (raster_result (raster svgData), s2)))"

definition exportMutation :: "bool \<Rightarrow> (Scene \<Rightarrow> Raster) \<Rightarrow> nat \<Rightarrow> Scene \<Rightarrow> Scene" where
  "exportMutation mounted raster now s =
     (case mutationFn mounted raster s of
        (Inr blob, s') \<Rightarrow>
          s'\<lparr>downloads := downloads s' @
                [\<lparr>filename = ''fingerboard-design-'' @ toString now @ ''.png'',
                  payload = PngFile blob\<rparr>],
              toasts := toasts s' @
                [\<lparr>title = ''Design exported!'',
                  description = ''Your fingerboard design has been downloaded.'',
                  destructive = False\<rparr>]\<rparr>
      | (Inl err, s') \<Rightarrow>
          s'\<lparr>toasts := toasts s' @
                [\<lparr>title = ''Export failed'', description = ''Please try again.'',
                  destructive = True\<rparr>]\<rparr>)"

text \<open>
  The archive is built by the JSZip library, which is outside the repository. Its
  bookkeeping is modelled after JSZip 3: the archive is the object \<^verbatim>\<open>files\<close>, whose
  keys keep the order in which they were first set; \<^verbatim>\<open>fileAdd\<close> makes sure that the
  parent folder of a name is an entry (\<^verbatim>\<open>createFolders\<close> is on by default) and then
  sets the entry under the name; \<^verbatim>\<open>folderAdd\<close> adds a folder under its name with a
  trailing slash unless that entry exists.
\<close>

text \<open>\<^verbatim>\<open>str.lastIndexOf(c)\<close>: the index of the last occurrence, or \<open>-1\<close>.\<close>

definition lastIndexOf :: "string \<Rightarrow> char \<Rightarrow> int" where
  "lastIndexOf str c = int (length (dropWhile (\<lambda>d. d \<noteq> c) (rev str))) - 1"

definition forceTrailingSlash :: "string \<Rightarrow> string" where
  "forceTrailingSlash path =
     (if path \<noteq> [] \<and> last path = CHR ''/'' then path else path @ ''/'')"

definition parentFolder :: "string \<Rightarrow> string" where
  "parentFolder path =
     (let path1 = (if path \<noteq> [] \<and> last path = CHR ''/'' then butlast path else path);
          lastSlash = lastIndexOf path1 (CHR ''/'')
      in if lastSlash > 0 then take (nat lastSlash) path1 else [])"

text \<open>\<^verbatim>\<open>this.files[name] = object\<close>: a key that is present keeps its place.\<close>

fun files_set :: "string \<Rightarrow> ZipEntry \<Rightarrow> Archive \<Rightarrow> Archive" where
  "files_set name entry [] = [(name, entry)]"
| "files_set name entry (p # ps) =
     (if fst p = name then (name, entry) # ps else p # files_set name entry ps)"

text \<open>
  The two functions call each other along the chain of parent folders. The path without
  its trailing slash, \<open>stem\<close>, gets shorter at each step, which is why the calls end.
  An entry \<open>ZipDir\<close> stands for the option \<^verbatim>\<open>dir: true\<close>.
\<close>

definition stem :: "string \<Rightarrow> string" where
  "stem path = (if path \<noteq> [] \<and> last path = CHR ''/'' then butlast path else path)"

function fileAdd :: "string \<Rightarrow> ZipEntry \<Rightarrow> Archive \<Rightarrow> Archive"
  and folderAdd :: "string \<Rightarrow> Archive \<Rightarrow> Archive" where
  "fileAdd name entry files =
     (let name1 = (if entry = ZipDir then forceTrailingSlash name else name);
          parent = parentFolder name1;
          files1 = (if parent \<noteq> [] then folderAdd parent files else files)
      in files_set name1 entry files1)"
| "folderAdd name files =
     (let name1 = forceTrailingSlash name
      in if name1 \<in> fst ` set files then files else fileAdd name1 ZipDir files)"
  by pat_completeness auto
termination
proof (relation "measure (\<lambda>x. case x of
      Inl (name, entry, files) \<Rightarrow>
        2 * length (stem (if entry = ZipDir then forceTrailingSlash name else name)) + 1
    | Inr (name, files) \<Rightarrow> 2 * length (stem (forceTrailingSlash name)) + 2)", goal_cases)
  case 1
  show ?case by simp
next
  case (2 name entry files x xa)
  have "length (dropWhile (\<lambda>d. d \<noteq> CHR ''/'') (rev (stem x))) \<le> length (rev (stem x))"
    by (rule length_dropWhile_le)
  then have "lastIndexOf (stem x) (CHR ''/'') < int (length (stem x))"
    by (simp add: lastIndexOf_def)
  with 2(2,3) have "length xa < length (stem x)"
    by (auto simp: parentFolder_def stem_def Let_def split: if_splits)
  moreover have "length (stem (forceTrailingSlash xa)) \<le> length xa"
    by (auto simp: stem_def forceTrailingSlash_def)
  ultimately show ?case using 2(1) by simp
next
  case (3 name files x)
  have "forceTrailingSlash (forceTrailingSlash name) = forceTrailingSlash name"
    by (simp add: forceTrailingSlash_def)
  with 3 show ?case by simp
qed

declare fileAdd.simps [simp del] folderAdd.simps [simp del]

text \<open>\<^verbatim>\<open>zip.file(name, blob)\<close> on the archive's root.\<close>

definition zip_file :: "string \<Rightarrow> Blob \<Rightarrow> Archive \<Rightarrow> Archive" where
  "zip_file name blob files = fileAdd name (ZipBlob blob) files"

text \<open>The file entries of an archive with their contents, in the archive's order.\<close>

fun rasters :: "Archive \<Rightarrow> (string \<times> Blob) list" where
  "rasters [] = []"
| "rasters ((name, ZipDir) # files) = rasters files"
| "rasters ((name, ZipBlob blob) # files) = (name, blob) # rasters files"

text \<open>
  The archive \<open>files'\<close> arises from \<open>files\<close> by folder entries only: the file
  entries are the same, and a key whose entry differs is a folder's, with its trailing
  slash.
\<close>

definition folders_added :: "Archive \<Rightarrow> Archive \<Rightarrow> bool" where
  "folders_added files files' \<longleftrightarrow>
     rasters files' = rasters files
     \<and> (\<forall>k. map_of files' k = map_of files k
            \<or> (map_of files' k = Some ZipDir \<and> k \<noteq> [] \<and> last k = CHR ''/''))"

text \<open>\<^verbatim>\<open>color.replace('#', '')\<close> removes the first \<^verbatim>\<open>#\<close> only.\<close>

definition colorName :: "string \<Rightarrow> string" where
  "colorName col = remove1 (CHR ''#'') col"

definition png_name :: "string \<Rightarrow> string \<Rightarrow> string" where
  "png_name dn col = (if dn = [] then ''design'' else dn) @ ''-'' @ colorName col @ ''.png''"

text \<open>
  The loop of \<^verbatim>\<open>handleBatchExport\<close>, from index \<open>i\<close> on. \<open>mountedAt i\<close> answers
  the test of \<^verbatim>\<open>svgRef.current\<close> in iteration \<open>i\<close>, after the two waits; a surface
  that is gone makes the iteration \<^verbatim>\<open>continue\<close>. The second component of the result
  lists the colours the surface was repainted with, in order: one per iteration that
  ran. A rejection leaves the loop at once, as the exception does.
\<close>

function batch_loop ::
  "(nat \<Rightarrow> bool) \<Rightarrow> (nat \<Rightarrow> Scene \<Rightarrow> Raster) \<Rightarrow> string list \<Rightarrow> string \<Rightarrow> nat \<Rightarrow>
   Archive \<Rightarrow> string list \<Rightarrow> Scene \<Rightarrow>
   (ExportError + Archive) \<times> string list \<times> Scene" where
  "batch_loop mountedAt raster cs dn i zp painted s =
     (if i < length cs then
        (let col = cs ! i;
             s1 = s\<lparr>backgroundColor := col\<rparr>;
             painted1 = painted @ [col]
         in if \<not> mountedAt i then batch_loop mountedAt raster cs dn (i + 1) zp painted1 s1
            else (case raster_result (raster i s1) of
                    Inl err \<Rightarrow> (Inl err, painted1, s1)
                  | Inr blob \<Rightarrow>
                      batch_loop mountedAt raster cs dn (i + 1)
                        (zip_file (png_name dn col) blob zp) painted1 s1))
      else (Inr zp, painted, s))"
  by pat_completeness auto
termination
  by (relation "measure (\<lambda>(mountedAt, raster, cs, dn, i, zp, painted, s). length cs - i)") auto

declare batch_loop.simps [simp del]

text \<open>
  \<^verbatim>\<open>handleBatchExport\<close>. \<open>zipOk\<close> says whether \<^verbatim>\<open>zip.generateAsync\<close> resolves;
  when it rejects, the \<^verbatim>\<open>catch\<close> block shows the same toast as for a capture that
  failed. The result pairs the colours painted with the scene after the
  \<^verbatim>\<open>finally\<close> block.
\<close>

definition handleBatchExport ::
  "bool \<Rightarrow> (nat \<Rightarrow> bool) \<Rightarrow> (nat \<Rightarrow> Scene \<Rightarrow> Raster) \<Rightarrow> bool \<Rightarrow> Scene \<Rightarrow> string list \<times> Scene" where
  "handleBatchExport mounted mountedAt raster zipOk s =
     (if \<not> mounted \<or> length (batchColors s) = 0 then ([], s)
      else
        (let s0 = s\<lparr>batchExporting := True\<rparr>;
             originalColor = backgroundColor s;
             originalShowGuides = showGuides s;
             s1 = s0\<lparr>showGuides := False\<rparr>;
             (outcome, painted, s2) =
                batch_loop mountedAt raster (batchColors s) (designName s) 0 [] [] s1;
             s3 = (case outcome of
                     Inr zp \<Rightarrow>
                       if zipOk then
                         s2\<lparr>downloads := downloads s2 @
                               [\<lparr>filename =
                                   (if designName s = [] then ''fingerboard-designs''
                                    else designName s) @ ''-batch.zip'',
                                 payload = ZipFile zp\<rparr>],
                            toasts := toasts s2 @
                              [\<lparr>title = ''Batch export complete!'',
                                description =
                                  toString (length (batchColors s)) @ '' designs exported.'',
                                destructive = False\<rparr>],
                            batchExportOpen := False\<rparr>
                       else
                         s2\<lparr>toasts := toasts s2 @
                              [\<lparr>title = ''Batch export failed'',
                                description = ''Please try again.'', destructive = True\<rparr>]\<rparr>
                   | Inl err \<Rightarrow>
                       s2\<lparr>toasts := toasts s2 @
                            [\<lparr>title = ''Batch export failed'',
                              description = ''Please try again.'', destructive = True\<rparr>]\<rparr>)
         in (painted,
             s3\<lparr>backgroundColor := originalColor, showGuides := originalShowGuides,
                batchExporting := False\<rparr>)))"

text \<open>
  The scene that the surface shows while the variant with colour \<open>c\<close> is captured:
  the export is marked as running, the guides are hidden and the background is \<open>c\<close>.
\<close>

definition variant_scene :: "Scene \<Rightarrow> string \<Rightarrow> Scene" where
  "variant_scene s c = s\<lparr>batchExporting := True, showGuides := False, backgroundColor := c\<rparr>"

text \<open>The blob of a conversion that succeeded.\<close>

definition the_png :: "Raster \<Rightarrow> Blob" where
  "the_png r = (case r of Png blob \<Rightarrow> blob | _ \<Rightarrow> [])"

section \<open>Properties\<close>

subsection \<open>Creation and the uniqueness of layers\<close>

text \<open>
  What creation does guarantee, while the layers stay below \<open>2^53\<close> in magnitude:
  the new text lies strictly above every text that is already there. The image's layer
  is not read.
\<close>

lemma addTextBox_above_texts:
  assumes "t \<in> set (textElements s)" and "\<forall>u\<in>set (textElements s). \<bar>layer u\<bar> < 2 ^ 53"
  shows "layer t < layer (last (textElements (addTextBox now s)))"
proof -
  let ?m = "Max (set (map layer (textElements s)))"
  from assms(1) have ne: "textElements s \<noteq> []" by auto
  have "?m \<in> set (map layer (textElements s))"
    using ne by (intro Max_in) auto
  with assms(2) have "\<bar>?m\<bar> < 2 ^ 53" by auto
  then have "add_one ?m = ?m + 1" by (simp add: add_one_def)
  moreover have "layer t \<le> ?m" using assms(1) by (intro Max_ge) auto
  ultimately show ?thesis using ne
    by (simp add: addTextBox_def Math_max_def Let_def)
qed

text \<open>
  C2. A new text box should get a layer strictly greater than the maximum over all
  elements, the image included. The code takes the maximum over the texts only: with an
  image at layer 0 and no text, both \<^verbatim>\<open>addTextBox\<close> and \<^verbatim>\<open>addTextElement\<close> give
  the new text layer 0, which is the maximum over all elements and not above it.
\<close>

theorem new_text_layer_not_above_image:
  "layer (last (textElements (addTextBox 1 (addImage ''u'' initialScene)))) = 0
   \<and> Max (set (all_layers (addImage ''u'' initialScene))) = 0
   \<and> layer (last (textElements
        (addTextElement 1 (addImage ''u'' initialScene\<lparr>textInput := ''a''\<rparr>)))) = 0
   \<and> Max (set (all_layers (addImage ''u'' initialScene\<lparr>textInput := ''a''\<rparr>))) = 0"
  by code_simp

text \<open>
  C1. The layers of all live elements should stay pairwise distinct under any sequence
  of creations, deletions and moves from the initial scene. In the code, adding an image
  and then a text box gives both layer 0: the layers of the texts and the image, and the
  layers of the composed draw sequence, each hold a duplicate.
\<close>

theorem uniqueness_violated_after_addTextBox:
  "\<not> distinct (all_layers (run [AddImage ''u'', AddTextBox 1] initialScene))
   \<and> \<not> distinct (map le_layer (layerElements (run [AddImage ''u'', AddTextBox 1] initialScene)))"
  by code_simp

subsection \<open>Moves on an unknown identifier\<close>

lemma find_id_None: "i \<notin> te_id ` set ts \<Longrightarrow> find (\<lambda>t. te_id t = i) ts = None"
  by (auto simp: find_None_iff)

text \<open>
  C10. A move up or down on an identifier that matches no text element returns the
  scene as it was: every layer, position and other attribute, of the texts and of the
  image, is unchanged.
\<close>

theorem move_unknown_id_noop:
  "i \<notin> te_id ` set (textElements s) \<Longrightarrow> moveLayerUp i s = s \<and> moveLayerDown i s = s"
  by (simp add: moveLayerUp_def moveLayerDown_def find_id_None)

theorem move_unknown_id_noop_witness:
  "''7'' \<notin> te_id ` set (textElements (addTextBox 1 initialScene))
   \<and> moveLayerUp ''7'' (addTextBox 1 initialScene) = addTextBox 1 initialScene
   \<and> moveLayerDown ''7'' (addTextBox 1 initialScene) = addTextBox 1 initialScene"
proof -
  have h: "''7'' \<notin> te_id ` set (textElements (addTextBox 1 initialScene))"
    by code_simp
  from move_unknown_id_noop [OF h] h show ?thesis by blast
qed

subsection \<open>The draw sequence\<close>

lemma hd_sort_key_le:
  assumes "e \<in> set xs"
  shows "f (hd (sort_key f xs)) \<le> f e"
proof -
  have s: "sorted (map f (sort_key f xs))" by (rule sorted_sort_key)
  have ne: "sort_key f xs \<noteq> []" using assms by (metis empty_iff empty_set set_sort)
  have "e \<in> set (sort_key f xs)" using assms by simp
  with s ne show ?thesis
    by (cases "sort_key f xs") auto
qed

text \<open>
  C6. The draw sequence holds one entry per text element, of type text, carrying the
  text and keyed by the text's layer, and, when an image is present (\<^verbatim>\<open>imageUrl\<close> is
  not empty), one entry of type image keyed by \<^verbatim>\<open>imageLayer\<close>; it holds nothing
  else. It is sorted ascending by layer, so the entry at index 0, drawn first and
  furthest back, has the least layer; entries of one layer keep the order in which they
  were pushed, the image before the texts and the texts in their own order. Three texts
  with layers 3, 1, 2 and no image come out as the second, the third and the first, with
  layers 1, 2, 3.
\<close>

theorem compose_sorted_entries:
  "mset (layerElements s) =
     (if imageUrl s = [] then {#}
      else {#\<lparr>le_type = ImageT, le_layer = imageLayer s, le_data = None\<rparr>#})
     + image_mset (\<lambda>t. \<lparr>le_type = TextT, le_layer = layer t, le_data = Some t\<rparr>)
         (mset (textElements s))
   \<and> length (layerElements s) = length (textElements s) + (if imageUrl s = [] then 0 else 1)
   \<and> sorted (map le_layer (layerElements s))
   \<and> (\<forall>e \<in> set (layerElements s). le_layer (hd (layerElements s)) \<le> le_layer e)
   \<and> (\<forall>k. filter (\<lambda>e. le_layer e = k) (layerElements s) =
          (if imageUrl s \<noteq> [] \<and> imageLayer s = k
           then [\<lparr>le_type = ImageT, le_layer = imageLayer s, le_data = None\<rparr>] else [])
          @ map (\<lambda>t. \<lparr>le_type = TextT, le_layer = layer t, le_data = Some t\<rparr>)
              (filter (\<lambda>t. layer t = k) (textElements s)))
   \<and> (\<forall>a b c. textElements s = [a, b, c] \<and> layer a = 3 \<and> layer b = 1 \<and> layer c = 2
          \<and> imageUrl s = [] \<longrightarrow>
        map le_data (layerElements s) = [Some b, Some c, Some a]
        \<and> map le_layer (layerElements s) = [1, 2, 3])"
proof -
  have 1: "mset (layerElements s) =
     (if imageUrl s = [] then {#}
      else {#\<lparr>le_type = ImageT, le_layer = imageLayer s, le_data = None\<rparr>#})
     + image_mset (\<lambda>t. \<lparr>le_type = TextT, le_layer = layer t, le_data = Some t\<rparr>)
         (mset (textElements s))"
    by (simp add: layerElements_def layerEntries_def)
  have 2: "length (layerElements s) = length (textElements s) + (if imageUrl s = [] then 0 else 1)"
    by (simp add: layerElements_def layerEntries_def)
  have 3: "sorted (map le_layer (layerElements s))"
    by (simp add: layerElements_def)
  have 4: "\<forall>e \<in> set (layerElements s). le_layer (hd (layerElements s)) \<le> le_layer e"
    by (simp add: layerElements_def hd_sort_key_le)
  have 5: "\<forall>k. filter (\<lambda>e. le_layer e = k) (layerElements s) =
          (if imageUrl s \<noteq> [] \<and> imageLayer s = k
           then [\<lparr>le_type = ImageT, le_layer = imageLayer s, le_data = None\<rparr>] else [])
          @ map (\<lambda>t. \<lparr>le_type = TextT, le_layer = layer t, le_data = Some t\<rparr>)
              (filter (\<lambda>t. layer t = k) (textElements s))"
    by (simp add: layerElements_def layerEntries_def sort_key_stable filter_map o_def)
  have 6: "\<forall>a b c. textElements s = [a, b, c] \<and> layer a = 3 \<and> layer b = 1 \<and> layer c = 2
          \<and> imageUrl s = [] \<longrightarrow>
        map le_data (layerElements s) = [Some b, Some c, Some a]
        \<and> map le_layer (layerElements s) = [1, 2, 3]"
    by (simp add: layerElements_def layerEntries_def)
  from 1 2 3 4 5 6 show ?thesis by (intro conjI)
qed

text \<open>
  Two instances. Three text boxes with layers 3, 1, 2 and no image come out with layers
  1, 2, 3. With an image at layer 2 beside them, the image is drawn after the text of
  layer 1 and before the text of layer 2, which was pushed after it.
\<close>

theorem compose_sorted_entries_witness:
  "map le_layer (layerElements (initialScene\<lparr>textElements :=
      map (\<lambda>(i, l). \<lparr>te_id = i, content = ''New Text'', te_x = 16, te_y = 50, fontSize = 6,
                      color = ''#0f172a'', fontFamily = ''Impact'', strokeWidth = 0,
                      strokeColor = None, layer = l\<rparr>)
        [(''1'', 3), (''2'', 1), (''3'', 2)]\<rparr>)) = [1, 2, 3]
   \<and> map (map_option te_id \<circ> le_data) (layerElements (initialScene\<lparr>textElements :=
      map (\<lambda>(i, l). \<lparr>te_id = i, content = ''New Text'', te_x = 16, te_y = 50, fontSize = 6,
                      color = ''#0f172a'', fontFamily = ''Impact'', strokeWidth = 0,
                      strokeColor = None, layer = l\<rparr>)
        [(''1'', 3), (''2'', 1), (''3'', 2)]\<rparr>)) = [Some ''2'', Some ''3'', Some ''1'']
   \<and> sorted (map le_layer (layerElements (initialScene\<lparr>textElements :=
      map (\<lambda>(i, l). \<lparr>te_id = i, content = ''New Text'', te_x = 16, te_y = 50, fontSize = 6,
                      color = ''#0f172a'', fontFamily = ''Impact'', strokeWidth = 0,
                      strokeColor = None, layer = l\<rparr>)
        [(''1'', 3), (''2'', 1), (''3'', 2)]\<rparr>)))
   \<and> length (layerElements (initialScene\<lparr>textElements :=
      map (\<lambda>(i, l). \<lparr>te_id = i, content = ''New Text'', te_x = 16, te_y = 50, fontSize = 6,
                      color = ''#0f172a'', fontFamily = ''Impact'', strokeWidth = 0,
                      strokeColor = None, layer = l\<rparr>)
        [(''1'', 3), (''2'', 1), (''3'', 2)]\<rparr>)) = 3
   \<and> map (\<lambda>e. (le_type e, le_layer e, map_option te_id (le_data e)))
       (layerElements (initialScene\<lparr>imageUrl := ''u'', imageLayer := 2, textElements :=
      map (\<lambda>(i, l). \<lparr>te_id = i, content = ''New Text'', te_x = 16, te_y = 50, fontSize = 6,
                      color = ''#0f172a'', fontFamily = ''Impact'', strokeWidth = 0,
                      strokeColor = None, layer = l\<rparr>)
        [(''1'', 3), (''2'', 1), (''3'', 2)]\<rparr>))
       = [(TextT, 1, Some ''2''), (ImageT, 2, None), (TextT, 2, Some ''3''), (TextT, 3, Some ''1'')]
   \<and> length (layerElements (initialScene\<lparr>imageUrl := ''u'', imageLayer := 2, textElements :=
      map (\<lambda>(i, l). \<lparr>te_id = i, content = ''New Text'', te_x = 16, te_y = 50, fontSize = 6,
                      color = ''#0f172a'', fontFamily = ''Impact'', strokeWidth = 0,
                      strokeColor = None, layer = l\<rparr>)
        [(''1'', 3), (''2'', 1), (''3'', 2)]\<rparr>)) = 4"
  using compose_sorted_entries [of "initialScene\<lparr>textElements :=
      map (\<lambda>(i, l). \<lparr>te_id = i, content = ''New Text'', te_x = 16, te_y = 50, fontSize = 6,
                      color = ''#0f172a'', fontFamily = ''Impact'', strokeWidth = 0,
                      strokeColor = None, layer = l\<rparr>)
        [(''1'', 3), (''2'', 1), (''3'', 2)]\<rparr>"]
    compose_sorted_entries [of "initialScene\<lparr>imageUrl := ''u'', imageLayer := 2, textElements :=
      map (\<lambda>(i, l). \<lparr>te_id = i, content = ''New Text'', te_x = 16, te_y = 50, fontSize = 6,
                      color = ''#0f172a'', fontFamily = ''Impact'', strokeWidth = 0,
                      strokeColor = None, layer = l\<rparr>)
        [(''1'', 3), (''2'', 1), (''3'', 2)]\<rparr>"]
  by (simp add: initialScene_def layerElements_def layerEntries_def)

subsection \<open>The centre of the image\<close>

text \<open>
  The translation takes the corner of the box to the position less half the scaled
  size, and the rotation leaves the centre of the box where it is.
\<close>

lemma image_top_left:
  "(imageX s, imageY s) =
     (fst (imagePosition s) - (16 * (imageScale s / 100)) / 2,
      snd (imagePosition s) - (40 * (imageScale s / 100)) / 2)"
  by (simp add: imageX_def imageY_def imageCenterX_def imageCenterY_def imageWidth_def
      imageHeight_def)

lemma rotate_fixes_center:
  "apply_transform (Rotate (imageRotation s) (imageWidth s / 2) (imageHeight s / 2))
     (imageWidth s / 2, imageHeight s / 2) = (imageWidth s / 2, imageHeight s / 2)"
  by simp

lemma drawn_center_unflipped:
  "\<not> imageFlipped s \<Longrightarrow> drawn_center s = imagePosition s"
  by (simp add: drawn_center_def to_board_def imageTransform_def imageX_def imageY_def
      imageCenterX_def imageCenterY_def)

lemma drawn_center_flipped:
  "imageFlipped s \<Longrightarrow>
   drawn_center s =
     (fst (imagePosition s) + imageHeight s * sin (imageRotation s * pi / 180),
      snd (imagePosition s) - imageHeight s * cos (imageRotation s * pi / 180))"
  by (simp add: drawn_center_def to_board_def imageTransform_def imageX_def imageY_def
      imageCenterX_def imageCenterY_def algebra_simps)

text \<open>
  C5. The corner of the box is computed as the claim says, and for an image that is not
  flipped the centre of the drawn box is \<^verbatim>\<open>imagePosition\<close> at every scale and rotation.
  The state cell \<^verbatim>\<open>imageFlipped\<close> is set when a saved design is loaded, and the flip
  is written as \<^verbatim>\<open>scale(1 -1)\<close>, which mirrors about the upper edge of the box and not
  about its centre. For a flipped image the centre of the drawn box lies one scaled
  height away from \<^verbatim>\<open>imagePosition\<close>, in a direction that turns with the rotation: at
  the position \<open>(8, 20)\<close> of the initial scene it is \<open>(8, -20)\<close> at scale 100 and
  \<open>(8, -60)\<close> at scale 200, so it is not the position and it moves with the scale.
\<close>

theorem flipped_image_center_not_anchored:
  "(imageX s, imageY s) =
     (fst (imagePosition s) - (16 * (imageScale s / 100)) / 2,
      snd (imagePosition s) - (40 * (imageScale s / 100)) / 2)
   \<and> drawn_center (s\<lparr>imageFlipped := False\<rparr>) = imagePosition s
   \<and> drawn_center (s\<lparr>imageFlipped := True\<rparr>) =
       (fst (imagePosition s) + imageHeight s * sin (imageRotation s * pi / 180),
        snd (imagePosition s) - imageHeight s * cos (imageRotation s * pi / 180))
   \<and> imagePosition (initialScene\<lparr>imageUrl := ''u'', imageFlipped := True\<rparr>) = (8, 20)
   \<and> drawn_center (initialScene\<lparr>imageUrl := ''u'', imageFlipped := True\<rparr>) = (8, - 20)
   \<and> imagePosition (initialScene\<lparr>imageUrl := ''u'', imageFlipped := True, imageScale := 200\<rparr>)
       = (8, 20)
   \<and> drawn_center (initialScene\<lparr>imageUrl := ''u'', imageFlipped := True, imageScale := 200\<rparr>)
       = (8, - 60)"
proof -
  have 1: "drawn_center (s\<lparr>imageFlipped := False\<rparr>) = imagePosition s"
    using drawn_center_unflipped [of "s\<lparr>imageFlipped := False\<rparr>"] by simp
  have 2: "drawn_center (s\<lparr>imageFlipped := True\<rparr>) =
       (fst (imagePosition s) + imageHeight s * sin (imageRotation s * pi / 180),
        snd (imagePosition s) - imageHeight s * cos (imageRotation s * pi / 180))"
    using drawn_center_flipped [of "s\<lparr>imageFlipped := True\<rparr>"]
    by (simp add: imageHeight_def)
  have 3: "drawn_center (initialScene\<lparr>imageUrl := ''u'', imageFlipped := True\<rparr>) = (8, - 20)"
    using drawn_center_flipped [of "initialScene\<lparr>imageUrl := ''u'', imageFlipped := True\<rparr>"]
    by (simp add: imageHeight_def initialScene_def)
  have 4: "drawn_center (initialScene\<lparr>imageUrl := ''u'', imageFlipped := True, imageScale := 200\<rparr>)
       = (8, - 60)"
    using drawn_center_flipped
      [of "initialScene\<lparr>imageUrl := ''u'', imageFlipped := True, imageScale := 200\<rparr>"]
    by (simp add: imageHeight_def initialScene_def)
  have 5: "imagePosition (initialScene\<lparr>imageUrl := ''u'', imageFlipped := True\<rparr>) = (8, 20)"
    "imagePosition (initialScene\<lparr>imageUrl := ''u'', imageFlipped := True, imageScale := 200\<rparr>)
       = (8, 20)"
    by (simp_all add: initialScene_def)
  from image_top_left [of s] 1 2 3 4 5 show ?thesis by (intro conjI)
qed

subsection \<open>Single export\<close>

text \<open>
  C9. After any run of the single export, whether the surface is missing, the
  conversion fails or it succeeds, the guide flag equals its value before the export.
\<close>

theorem export_restores_guides:
  "showGuides (exportMutation mounted raster now s) = showGuides s"
  by (simp add: exportMutation_def mutationFn_def Let_def split: sum.splits)

subsection \<open>Batch export\<close>

lemma batch_loop_state:
  "batch_loop m r cs dn i zp p s = (out, p', s') \<Longrightarrow>
   s'\<lparr>backgroundColor := x\<rparr> = s\<lparr>backgroundColor := x\<rparr>"
proof (induction m r cs dn i zp p s rule: batch_loop.induct)
  case (1 mountedAt raster cs dn i zp painted s)
  show ?case
  proof (cases "i < length cs")
    case False
    with "1.prems" show ?thesis by (simp add: batch_loop.simps)
  next
    case True
    note lt = this
    let ?s1 = "s\<lparr>backgroundColor := cs ! i\<rparr>"
    show ?thesis
    proof (cases "mountedAt i")
      case False
      with lt "1.prems" have "batch_loop mountedAt raster cs dn (i + 1) zp (painted @ [cs ! i]) ?s1 = (out, p', s')"
        by (simp add: batch_loop.simps [of _ _ _ _ i] Let_def)
      from "1.IH"(1) [OF lt refl refl refl False this] show ?thesis by simp
    next
      case True
      show ?thesis
      proof (cases "raster_result (raster i ?s1)")
        case (Inl e)
        with lt True "1.prems" show ?thesis
          by (auto simp: batch_loop.simps [of _ _ _ _ i] Let_def)
      next
        case (Inr b)
        with lt True "1.prems" have "batch_loop mountedAt raster cs dn (i + 1)
            (zip_file (png_name dn (cs ! i)) b zp) (painted @ [cs ! i]) ?s1 = (out, p', s')"
          by (simp add: batch_loop.simps [of _ _ _ _ i] Let_def)
        from "1.IH"(2) [OF lt refl refl refl _ Inr this] True show ?thesis by simp
      qed
    qed
  qed
qed


lemma batch_loop_fail:
  "i \<le> k \<Longrightarrow> k < length cs \<Longrightarrow> mountedAt k \<Longrightarrow>
   raster_result (raster k (s\<lparr>backgroundColor := cs ! k\<rparr>)) = Inl e \<Longrightarrow>
   (\<forall>j. i \<le> j \<and> j < k \<longrightarrow> mountedAt j \<longrightarrow>
        (\<exists>b. raster j (s\<lparr>backgroundColor := cs ! j\<rparr>) = Png b)) \<Longrightarrow>
   batch_loop mountedAt raster cs dn i zp p s =
     (Inl e, p @ take (Suc k - i) (drop i cs), s\<lparr>backgroundColor := cs ! k\<rparr>)"
proof (induction mountedAt raster cs dn i zp p s rule: batch_loop.induct)
  case (1 mountedAt raster cs dn i zp painted s)
  let ?s1 = "s\<lparr>backgroundColor := cs ! i\<rparr>"
  have lt: "i < length cs" using "1.prems" by simp
  have dr: "drop i cs = cs ! i # drop (Suc i) cs"
    using lt by (simp add: Cons_nth_drop_Suc)
  show ?case
  proof (cases "i = k")
    case True
    from dr True have dr': "drop k cs = cs ! k # drop (Suc k) cs" by simp
    from True "1.prems" lt show ?thesis
      by (simp add: batch_loop.simps [of _ _ _ _ k] Let_def dr')
  next
    case False
    then have ik: "i + 1 \<le> k" using "1.prems" by simp
    have tk: "take (Suc k - i) (drop i cs) = cs ! i # take (Suc k - (i + 1)) (drop (i + 1) cs)"
      using ik by (simp add: dr Suc_diff_le)
    have fail': "raster_result (raster k (?s1\<lparr>backgroundColor := cs ! k\<rparr>)) = Inl e"
      using "1.prems" by simp
    have ok': "\<forall>j. i + 1 \<le> j \<and> j < k \<longrightarrow> mountedAt j \<longrightarrow>
        (\<exists>b. raster j (?s1\<lparr>backgroundColor := cs ! j\<rparr>) = Png b)"
      using "1.prems" by simp
    show ?thesis
    proof (cases "mountedAt i")
      case False
      from "1.IH"(1) [OF lt refl refl refl False ik "1.prems"(2,3) fail' ok']
      show ?thesis using lt False
        by (simp add: batch_loop.simps [of _ _ _ _ i] Let_def tk)
    next
      case True
      with "1.prems" False obtain b where b: "raster i ?s1 = Png b"
        by (metis le_refl le_neq_implies_less)
      then have rr: "raster_result (raster i ?s1) = Inr b"
        by (simp add: raster_result_def)
      from "1.IH"(2) [OF lt refl refl refl _ rr ik "1.prems"(2,3) fail' ok'] True
      show ?thesis using lt rr
        by (simp add: batch_loop.simps [of _ _ _ _ i] Let_def tk)
    qed
  qed
qed



lemma map_of_files_set: "map_of (files_set k e files) = (map_of files)(k \<mapsto> e)"
  by (induction files) (auto simp: fun_eq_iff)

lemma rasters_files_set_dir:
  "\<forall>b. map_of files k \<noteq> Some (ZipBlob b) \<Longrightarrow> rasters (files_set k ZipDir files) = rasters files"
proof (induction files)
  case Nil
  show ?case by simp
next
  case (Cons p files)
  obtain n e where p: "p = (n, e)" by (cases p)
  show ?case
  proof (cases "n = k")
    case True
    with Cons.prems p have "e = ZipDir" by (cases e) auto
    with True p show ?thesis by simp
  next
    case False
    with Cons p show ?thesis by (cases e) auto
  qed
qed

lemma rasters_files_set_fresh:
  "map_of files k = None \<Longrightarrow> rasters (files_set k (ZipBlob b) files) = rasters files @ [(k, b)]"
proof (induction files)
  case Nil
  show ?case by simp
next
  case (Cons p files)
  obtain n e where p: "p = (n, e)" by (cases p)
  with Cons.prems have "n \<noteq> k" by (auto split: if_splits)
  with Cons p show ?case by (cases e) (auto split: if_splits)
qed

lemma forceTrailingSlash_last:
  "forceTrailingSlash path \<noteq> [] \<and> last (forceTrailingSlash path) = CHR ''/''"
  by (simp add: forceTrailingSlash_def)

lemma forceTrailingSlash_idem:
  "forceTrailingSlash (forceTrailingSlash path) = forceTrailingSlash path"
  by (simp add: forceTrailingSlash_def)

lemma folders_added_refl: "folders_added files files"
  by (simp add: folders_added_def)

lemma folders_added_set_dir:
  assumes fa: "folders_added files files1"
    and nb: "\<forall>b. map_of files k \<noteq> Some (ZipBlob b)"
    and k: "k \<noteq> [] \<and> last k = CHR ''/''"
  shows "folders_added files (files_set k ZipDir files1)"
proof -
  from fa have r: "rasters files1 = rasters files"
    and m: "\<And>j. map_of files1 j = map_of files j
        \<or> (map_of files1 j = Some ZipDir \<and> j \<noteq> [] \<and> last j = CHR ''/'')"
    by (simp_all add: folders_added_def)
  from m [of k] nb have "\<forall>b. map_of files1 k \<noteq> Some (ZipBlob b)" by auto
  then have "rasters (files_set k ZipDir files1) = rasters files"
    by (simp add: rasters_files_set_dir r)
  moreover have "\<And>j. map_of (files_set k ZipDir files1) j = map_of files j
        \<or> (map_of (files_set k ZipDir files1) j = Some ZipDir \<and> j \<noteq> [] \<and> last j = CHR ''/'')"
    using m k by (simp add: map_of_files_set)
  ultimately show ?thesis by (simp add: folders_added_def)
qed

lemma folders_only:
  "entry = ZipDir \<longrightarrow> (\<forall>b. map_of files (forceTrailingSlash name) \<noteq> Some (ZipBlob b)) \<longrightarrow>
     folders_added files (fileAdd name entry files)"
  "folders_added files (folderAdd name files)"
proof (induction name entry files and name files rule: fileAdd_folderAdd.induct)
  case (1 name entry files)
  show ?case
  proof (intro impI)
    assume e: "entry = ZipDir"
      and nb: "\<forall>b. map_of files (forceTrailingSlash name) \<noteq> Some (ZipBlob b)"
    let ?n = "forceTrailingSlash name"
    let ?files1 = "if parentFolder ?n \<noteq> [] then folderAdd (parentFolder ?n) files else files"
    have "folders_added files ?files1"
      using "1.IH" e by (simp add: folders_added_refl)
    then have "folders_added files (files_set ?n ZipDir ?files1)"
      using nb forceTrailingSlash_last by (rule folders_added_set_dir)
    moreover have "fileAdd name entry files = files_set ?n ZipDir ?files1"
      using e by (simp add: fileAdd.simps [of name] Let_def)
    ultimately show "folders_added files (fileAdd name entry files)" by simp
  qed
next
  case (2 name files)
  show ?case
  proof (cases "forceTrailingSlash name \<in> fst ` set files")
    case True
    then show ?thesis by (simp add: folderAdd.simps [of name] folders_added_refl)
  next
    case False
    then have "map_of files (forceTrailingSlash name) = None"
      by (simp add: map_of_eq_None_iff)
    then have "\<forall>b. map_of files (forceTrailingSlash (forceTrailingSlash name)) \<noteq> Some (ZipBlob b)"
      by (simp add: forceTrailingSlash_idem)
    with "2.IH" [OF refl False] have "folders_added files (fileAdd (forceTrailingSlash name) ZipDir files)"
      by simp
    with False show ?thesis by (simp add: folderAdd.simps [of name])
  qed
qed

lemma zip_file_fresh:
  assumes none: "map_of files name = None" and nm: "name \<noteq> []" "last name \<noteq> CHR ''/''"
  shows "rasters (zip_file name b files) = rasters files @ [(name, b)]"
    and "map_of (zip_file name b files) k \<noteq> None \<Longrightarrow>
         k = name \<or> map_of files k \<noteq> None \<or> (k \<noteq> [] \<and> last k = CHR ''/'')"
proof -
  let ?files1 = "if parentFolder name \<noteq> [] then folderAdd (parentFolder name) files else files"
  have fa: "folders_added files ?files1"
    by (simp add: folders_only(2) folders_added_refl)
  then have r: "rasters ?files1 = rasters files"
    and m: "\<And>j. map_of ?files1 j = map_of files j
        \<or> (map_of ?files1 j = Some ZipDir \<and> j \<noteq> [] \<and> last j = CHR ''/'')"
    unfolding folders_added_def by blast+
  have z: "zip_file name b files = files_set name (ZipBlob b) ?files1"
    by (simp add: zip_file_def fileAdd.simps [of name] Let_def)
  from m [of name] none nm have "map_of ?files1 name = None" by auto
  then show "rasters (zip_file name b files) = rasters files @ [(name, b)]"
    unfolding z by (simp only: rasters_files_set_fresh r)
  assume "map_of (zip_file name b files) k \<noteq> None"
  then have "k = name \<or> map_of ?files1 k \<noteq> None"
    unfolding z by (simp add: map_of_files_set split: if_splits)
  with m [of k] show "k = name \<or> map_of files k \<noteq> None \<or> (k \<noteq> [] \<and> last k = CHR ''/'')"
    by auto
qed

lemma png_name_last: "png_name dn c \<noteq> [] \<and> last (png_name dn c) \<noteq> CHR ''/''"
  by (simp add: png_name_def)


lemma batch_loop_ok:
  "distinct (map (png_name dn) cs) \<Longrightarrow> i \<le> length cs \<Longrightarrow>
   (\<forall>j. i \<le> j \<and> j < length cs \<longrightarrow>
        mountedAt j \<and> (\<exists>b. raster j (s\<lparr>backgroundColor := cs ! j\<rparr>) = Png b)) \<Longrightarrow>
   rasters zp = map (\<lambda>j. (png_name dn (cs ! j), the_png (raster j (s\<lparr>backgroundColor := cs ! j\<rparr>)))) [0..<i] \<Longrightarrow>
   (\<forall>k. map_of zp k \<noteq> None \<longrightarrow>
        (k \<noteq> [] \<and> last k = CHR ''/'') \<or> (\<exists>j<i. k = png_name dn (cs ! j))) \<Longrightarrow>
   \<exists>zp'. fst (batch_loop mountedAt raster cs dn i zp p s) = Inr zp'
     \<and> rasters zp' =
         map (\<lambda>j. (png_name dn (cs ! j), the_png (raster j (s\<lparr>backgroundColor := cs ! j\<rparr>))))
           [0..<length cs]
     \<and> fst (snd (batch_loop mountedAt raster cs dn i zp p s)) = p @ drop i cs"
proof (induction mountedAt raster cs dn i zp p s rule: batch_loop.induct)
  case (1 mountedAt raster cs dn i zp painted s)
  let ?s1 = "s\<lparr>backgroundColor := cs ! i\<rparr>"
  show ?case
  proof (cases "i < length cs")
    case False
    with "1.prems" have "i = length cs" by simp
    with "1.prems" show ?thesis by (simp add: batch_loop.simps [of _ _ _ _ "length cs"])
  next
    case True
    note lt = this
    let ?name = "png_name dn (cs ! i)"
    have dr: "drop i cs = cs ! i # drop (Suc i) cs"
      using lt by (simp add: Cons_nth_drop_Suc)
    from "1.prems" lt have m: "mountedAt i" by simp
    from "1.prems" lt obtain b where b: "raster i ?s1 = Png b" by auto
    then have rr: "raster_result (raster i ?s1) = Inr b"
      by (simp add: raster_result_def)
    have fresh: "map_of zp ?name = None"
    proof (rule ccontr)
      assume "map_of zp ?name \<noteq> None"
      with "1.prems"(5) png_name_last [of dn "cs ! i"]
      obtain j where j: "j < i" "?name = png_name dn (cs ! j)" by blast
      from "1.prems"(1) have "\<forall>a<length cs. \<forall>b<length cs. a \<noteq> b \<longrightarrow>
          png_name dn (cs ! a) \<noteq> png_name dn (cs ! b)"
        by (simp add: distinct_conv_nth)
      with j lt show False
        by (metis less_trans nat_neq_iff)
    qed
    note zf = zip_file_fresh [OF fresh, of b] png_name_last [of dn "cs ! i"]
    have ras: "rasters (zip_file ?name b zp) =
       map (\<lambda>j. (png_name dn (cs ! j), the_png (raster j (?s1\<lparr>backgroundColor := cs ! j\<rparr>)))) [0..<i + 1]"
    proof -
      have "rasters (zip_file ?name b zp) = rasters zp @ [(?name, b)]"
        using zf by blast
      also have "\<dots> = map (\<lambda>j. (png_name dn (cs ! j),
            the_png (raster j (?s1\<lparr>backgroundColor := cs ! j\<rparr>)))) [0..<i + 1]"
        using "1.prems"(4) b by (simp add: the_png_def)
      finally show ?thesis .
    qed
    have keys: "\<forall>k. map_of (zip_file ?name b zp) k \<noteq> None \<longrightarrow>
        (k \<noteq> [] \<and> last k = CHR ''/'') \<or> (\<exists>j<i + 1. k = png_name dn (cs ! j))"
    proof (intro allI impI)
      fix k assume "map_of (zip_file ?name b zp) k \<noteq> None"
      with zf have "k = ?name \<or> map_of zp k \<noteq> None \<or> (k \<noteq> [] \<and> last k = CHR ''/'')"
        by blast
      with "1.prems"(5) show "(k \<noteq> [] \<and> last k = CHR ''/'') \<or> (\<exists>j<i + 1. k = png_name dn (cs ! j))"
        by (metis less_Suc_eq Suc_eq_plus1)
    qed
    have ok': "\<forall>j. i + 1 \<le> j \<and> j < length cs \<longrightarrow>
        mountedAt j \<and> (\<exists>b. raster j (?s1\<lparr>backgroundColor := cs ! j\<rparr>) = Png b)"
      using "1.prems" by simp
    have le': "i + 1 \<le> length cs" using lt by simp
    from "1.IH"(2) [OF lt refl refl refl _ rr "1.prems"(1) le' ok' ras keys] m
    show ?thesis using lt rr m
      by (simp add: batch_loop.simps [of _ _ _ _ i] Let_def dr)
  qed
qed

lemma png_name_distinct:
  "distinct (map colorName cs) \<Longrightarrow> distinct (map (png_name dn) cs)"
proof -
  assume d: "distinct (map colorName cs)"
  have "inj (\<lambda>n. (if dn = [] then ''design'' else dn) @ ''-'' @ n @ ''.png'')"
    by (rule injI) simp
  then have "distinct (map (\<lambda>n. (if dn = [] then ''design'' else dn) @ ''-'' @ n @ ''.png'') (map colorName cs))"
    using d by (simp add: distinct_map inj_on_def inj_def del: map_map)
  moreover have "png_name dn = (\<lambda>x. (if dn = [] then ''design'' else dn) @ ''-'' @ colorName x @ ''.png'')"
    by (rule ext) (simp add: png_name_def)
  ultimately show ?thesis
    by (simp add: comp_def)
qed


lemma batch_loop_fields:
  assumes "batch_loop m r cs dn i zp p s = (out, p', s')"
  shows "toasts s' = toasts s" and "downloads s' = downloads s"
proof -
  from batch_loop_state [OF assms, of "[]"]
  have e: "s'\<lparr>backgroundColor := []\<rparr> = s\<lparr>backgroundColor := []\<rparr>" .
  have "toasts s' = toasts (s'\<lparr>backgroundColor := []\<rparr>)" by simp
  also have "\<dots> = toasts s" by (simp add: e)
  finally show "toasts s' = toasts s" .
  have "downloads s' = downloads (s'\<lparr>backgroundColor := []\<rparr>)" by simp
  also have "\<dots> = downloads s" by (simp add: e)
  finally show "downloads s' = downloads s" .
qed


lemma batch_restores:
  "backgroundColor (snd (handleBatchExport mounted mountedAt raster zipOk s)) = backgroundColor s
   \<and> showGuides (snd (handleBatchExport mounted mountedAt raster zipOk s)) = showGuides s"
  by (simp add: handleBatchExport_def Let_def split: prod.splits sum.splits)


lemma batch_fail_fast:
  assumes "mounted" and k: "k < length (batchColors s)" and mk: "mountedAt k"
    and fail: "raster k (variant_scene s (batchColors s ! k)) \<in> {LoadFailed, BlobFailed}"
    and before: "\<forall>j<k. mountedAt j \<longrightarrow> (\<exists>b. raster j (variant_scene s (batchColors s ! j)) = Png b)"
  shows "fst (handleBatchExport mounted mountedAt raster zipOk s) = take (Suc k) (batchColors s)
     \<and> downloads (snd (handleBatchExport mounted mountedAt raster zipOk s)) = downloads s
     \<and> toasts (snd (handleBatchExport mounted mountedAt raster zipOk s)) =
         toasts s @ [\<lparr>title = ''Batch export failed'', description = ''Please try again.'', destructive = True\<rparr>]"
proof -
  let ?s1 = "s\<lparr>batchExporting := True, showGuides := False\<rparr>"
  have vs: "\<And>c. ?s1\<lparr>backgroundColor := c\<rparr> = variant_scene s c"
    by (simp add: variant_scene_def)
  from fail obtain e where e: "raster_result (raster k (?s1\<lparr>backgroundColor := batchColors s ! k\<rparr>)) = Inl e"
    by (auto simp: vs raster_result_def)
  have b': "\<forall>j. 0 \<le> j \<and> j < k \<longrightarrow> mountedAt j \<longrightarrow>
      (\<exists>b. raster j (?s1\<lparr>backgroundColor := batchColors s ! j\<rparr>) = Png b)"
    using before by (simp add: vs)
  have loop: "batch_loop mountedAt raster (batchColors s) (designName s) 0 [] [] ?s1 =
      (Inl e, [] @ take (Suc k - 0) (drop 0 (batchColors s)), ?s1\<lparr>backgroundColor := batchColors s ! k\<rparr>)"
    by (rule batch_loop_fail [where i = 0 and k = k and cs = "batchColors s"
          and mountedAt = mountedAt and raster = raster and s = ?s1 and e = e,
          OF _ k mk e b']) simp
  have ne: "batchColors s \<noteq> []" using k by auto
  show ?thesis
    using \<open>mounted\<close> ne by (simp add: handleBatchExport_def Let_def loop)
qed

text \<open>
  C7. On every path through the batch export (the early return, an archive delivered,
  a capture that fails, an archive that cannot be generated, a surface that goes away
  while the batch runs) the background colour and the guide flag end at their values
  from before the batch. When the capture of variant \<open>k\<close> fails, the variants after it
  are neither painted nor captured, no archive is delivered, so that no entry reaches
  the user, and exactly one toast is added: the destructive toast
  \<^verbatim>\<open>Batch export failed\<close> of the \<^verbatim>\<open>catch\<close> block.
\<close>

theorem batch_export_restores_and_fails_fast:
  "backgroundColor (snd (handleBatchExport mounted mountedAt raster zipOk s)) = backgroundColor s
   \<and> showGuides (snd (handleBatchExport mounted mountedAt raster zipOk s)) = showGuides s
   \<and> (mounted \<and> k < length (batchColors s) \<and> mountedAt k
        \<and> raster k (variant_scene s (batchColors s ! k)) \<in> {LoadFailed, BlobFailed}
        \<and> (\<forall>j<k. mountedAt j \<longrightarrow> (\<exists>b. raster j (variant_scene s (batchColors s ! j)) = Png b))
      \<longrightarrow> fst (handleBatchExport mounted mountedAt raster zipOk s) = take (Suc k) (batchColors s)
          \<and> downloads (snd (handleBatchExport mounted mountedAt raster zipOk s)) = downloads s
          \<and> toasts (snd (handleBatchExport mounted mountedAt raster zipOk s))
              = toasts s @ [\<lparr>title = ''Batch export failed'', description = ''Please try again.'', destructive = True\<rparr>])"
  using batch_restores [of mounted mountedAt raster zipOk s]
    batch_fail_fast [of mounted k s mountedAt raster zipOk]
  by blast

text \<open>
  An instance: three variants, the capture of the second fails. The first two are
  painted, nothing is downloaded and the one toast is the failure.
\<close>

theorem batch_export_restores_and_fails_fast_witness:
  "(1::nat) < length (batchColors (initialScene\<lparr>batchColors := [''#ff0000'', ''#00ff00'', ''#0000ff'']\<rparr>))
   \<and> (\<lambda>i sc. if i = (1::nat) then BlobFailed else Png (backgroundColor sc)) 1
        (variant_scene (initialScene\<lparr>batchColors := [''#ff0000'', ''#00ff00'', ''#0000ff'']\<rparr>) ''#00ff00'')
        \<in> {LoadFailed, BlobFailed}
   \<and> backgroundColor (snd (handleBatchExport True (\<lambda>_. True)
        (\<lambda>i sc. if i = 1 then BlobFailed else Png (backgroundColor sc)) True
        (initialScene\<lparr>batchColors := [''#ff0000'', ''#00ff00'', ''#0000ff'']\<rparr>))) = ''#ffffff''
   \<and> showGuides (snd (handleBatchExport True (\<lambda>_. True)
        (\<lambda>i sc. if i = 1 then BlobFailed else Png (backgroundColor sc)) True
        (initialScene\<lparr>batchColors := [''#ff0000'', ''#00ff00'', ''#0000ff'']\<rparr>)))
   \<and> fst (handleBatchExport True (\<lambda>_. True)
        (\<lambda>i sc. if i = 1 then BlobFailed else Png (backgroundColor sc)) True
        (initialScene\<lparr>batchColors := [''#ff0000'', ''#00ff00'', ''#0000ff'']\<rparr>))
       = [''#ff0000'', ''#00ff00'']
   \<and> downloads (snd (handleBatchExport True (\<lambda>_. True)
        (\<lambda>i sc. if i = 1 then BlobFailed else Png (backgroundColor sc)) True
        (initialScene\<lparr>batchColors := [''#ff0000'', ''#00ff00'', ''#0000ff'']\<rparr>))) = []
   \<and> toasts (snd (handleBatchExport True (\<lambda>_. True)
        (\<lambda>i sc. if i = 1 then BlobFailed else Png (backgroundColor sc)) True
        (initialScene\<lparr>batchColors := [''#ff0000'', ''#00ff00'', ''#0000ff'']\<rparr>)))
       = [\<lparr>title = ''Batch export failed'', description = ''Please try again.'', destructive = True\<rparr>]"
  using batch_export_restores_and_fails_fast [of True "\<lambda>_. True"
      "\<lambda>i sc. if i = 1 then BlobFailed else Png (backgroundColor sc)" True
      "initialScene\<lparr>batchColors := [''#ff0000'', ''#00ff00'', ''#0000ff'']\<rparr>" 1]
  by (simp add: initialScene_def variant_scene_def)

text \<open>Distinct values that all begin with \<^verbatim>\<open>#\<close> have distinct colour names.\<close>

lemma colorName_hash_distinct:
  assumes "distinct cs" and "\<forall>c\<in>set cs. c \<noteq> [] \<and> hd c = CHR ''#''"
  shows "distinct (map colorName cs)"
proof -
  have "inj_on colorName (set cs)"
  proof (rule inj_onI)
    fix a b assume ab: "a \<in> set cs" "b \<in> set cs" "colorName a = colorName b"
    with assms(2) obtain a' b' where "a = CHR ''#'' # a'" "b = CHR ''#'' # b'"
      by (metis list.collapse)
    with ab(3) show "a = b" by (simp add: colorName_def)
  qed
  with assms(1) show ?thesis by (simp add: distinct_map)
qed


lemma rasters_complete: "\<forall>e\<in>set files. snd e = ZipDir \<or> (\<exists>b. (fst e, b) \<in> set (rasters files))"
proof (induction files)
  case Nil
  show ?case by simp
next
  case (Cons p files)
  obtain n e where p: "p = (n, e)" by (cases p)
  with Cons show ?case by (cases e) auto
qed

text \<open>
  C8. Given a mounted surface and a non-empty list of \<open>N\<close> pairwise distinct colour
  values, each a \<^verbatim>\<open>#\<close> followed by its digits as the colour inputs yield them, a
  batch export that succeeds (the surface stays mounted, every capture yields its
  raster and the archive is generated) paints the variants one after the other in
  list order and delivers one archive whose raster entries are exactly \<open>N\<close>: entry
  \<open>j\<close> is named from the design name and the colour value of variant \<open>j\<close>, and
  holds the capture taken while variant \<open>j\<close> was shown. Whatever else the archive
  holds is a folder entry, made for a design name with a \<^verbatim>\<open>/\<close>.
\<close>

theorem batch_export_archive:
  assumes "mounted" and ne: "batchColors s \<noteq> []"
    and d: "distinct (batchColors s)"
    and hash: "\<forall>c\<in>set (batchColors s). c \<noteq> [] \<and> hd c = CHR ''#''"
    and ok: "\<forall>j<length (batchColors s).
        mountedAt j \<and> (\<exists>b. raster j (variant_scene s (batchColors s ! j)) = Png b)"
    and "zipOk"
  shows "fst (handleBatchExport mounted mountedAt raster zipOk s) = batchColors s
     \<and> (\<exists>zp. downloads (snd (handleBatchExport mounted mountedAt raster zipOk s)) =
           downloads s @
             [\<lparr>filename = (if designName s = [] then ''fingerboard-designs'' else designName s)
                  @ ''-batch.zip'',
               payload = ZipFile zp\<rparr>]
         \<and> length (rasters zp) = length (batchColors s)
         \<and> rasters zp =
             map (\<lambda>j. ((if designName s = [] then ''design'' else designName s) @ ''-''
                          @ colorName (batchColors s ! j) @ ''.png'',
                        the_png (raster j (variant_scene s (batchColors s ! j)))))
               [0..<length (batchColors s)]
         \<and> distinct (map fst (rasters zp))
         \<and> (\<forall>e\<in>set zp. snd e = ZipDir \<or> (\<exists>b. (fst e, b) \<in> set (rasters zp))))"
proof -
  let ?s1 = "s\<lparr>batchExporting := True, showGuides := False\<rparr>"
  let ?run = "batch_loop mountedAt raster (batchColors s) (designName s) 0 [] [] ?s1"
  let ?N = "length (batchColors s)"
  have vs: "\<And>c. ?s1\<lparr>backgroundColor := c\<rparr> = variant_scene s c"
    by (simp add: variant_scene_def)
  have ok': "\<forall>j. 0 \<le> j \<and> j < ?N \<longrightarrow>
      mountedAt j \<and> (\<exists>b. raster j (?s1\<lparr>backgroundColor := batchColors s ! j\<rparr>) = Png b)"
    using ok by (simp add: vs)
  have z0: "rasters [] = map (\<lambda>j. (png_name (designName s) (batchColors s ! j),
      the_png (raster j (?s1\<lparr>backgroundColor := batchColors s ! j\<rparr>)))) [0..<0]"
    by simp
  have k0: "\<forall>k. map_of ([] :: Archive) k \<noteq> None \<longrightarrow>
      (k \<noteq> [] \<and> last k = CHR ''/'') \<or> (\<exists>j<0. k = png_name (designName s) (batchColors s ! j))"
    by simp
  have dn: "distinct (map (png_name (designName s)) (batchColors s))"
    by (rule png_name_distinct [OF colorName_hash_distinct [OF d hash]])
  from batch_loop_ok [where i = 0 and cs = "batchColors s" and dn = "designName s"
      and mountedAt = mountedAt and raster = raster and s = ?s1 and zp = "[]" and p = "[]",
      OF dn _ ok' z0 k0]
  have "\<exists>zp. fst ?run = Inr zp
     \<and> rasters zp = map (\<lambda>j. (png_name (designName s) (batchColors s ! j),
          the_png (raster j (variant_scene s (batchColors s ! j))))) [0..<?N]
     \<and> fst (snd ?run) = batchColors s"
    by (simp add: vs)
  then obtain zp where r: "fst ?run = Inr zp"
    and ras: "rasters zp = map (\<lambda>j. (png_name (designName s) (batchColors s ! j),
        the_png (raster j (variant_scene s (batchColors s ! j))))) [0..<?N]"
    and p: "fst (snd ?run) = batchColors s"
    by blast
  obtain out pt s2 where run: "?run = (out, pt, s2)"
    by (cases ?run) auto
  from batch_loop_fields [OF run] have f: "toasts s2 = toasts s" "downloads s2 = downloads s"
    by simp_all
  from r p run have o: "out = Inr zp" and pt: "pt = batchColors s" by simp_all
  have dl: "downloads (snd (handleBatchExport mounted mountedAt raster zipOk s)) =
      downloads s @
        [\<lparr>filename = (if designName s = [] then ''fingerboard-designs'' else designName s)
             @ ''-batch.zip'', payload = ZipFile zp\<rparr>]"
    using \<open>mounted\<close> \<open>zipOk\<close> ne by (simp add: handleBatchExport_def Let_def run o pt f)
  have painted: "fst (handleBatchExport mounted mountedAt raster zipOk s) = batchColors s"
    using \<open>mounted\<close> \<open>zipOk\<close> ne by (simp add: handleBatchExport_def Let_def run o pt f)
  have ras': "rasters zp =
      map (\<lambda>j. ((if designName s = [] then ''design'' else designName s) @ ''-''
                   @ colorName (batchColors s ! j) @ ''.png'',
                 the_png (raster j (variant_scene s (batchColors s ! j))))) [0..<?N]"
    unfolding ras by (simp add: png_name_def)
  have len: "length (rasters zp) = ?N"
    unfolding ras by simp
  have mf: "map fst (rasters zp) = map (\<lambda>j. png_name (designName s) (batchColors s ! j)) [0..<?N]"
    unfolding ras by simp
  have mn: "map (\<lambda>j. png_name (designName s) (batchColors s ! j)) [0..<?N]
      = map (png_name (designName s)) (batchColors s)"
    by (rule nth_equalityI) simp_all
  have dist: "distinct (map fst (rasters zp))"
    unfolding mf mn by (rule dn)
  have rest: "\<forall>e\<in>set zp. snd e = ZipDir \<or> (\<exists>b. (fst e, b) \<in> set (rasters zp))"
    by (rule rasters_complete)
  from dl len ras' dist rest
  have "\<exists>zp. downloads (snd (handleBatchExport mounted mountedAt raster zipOk s)) =
           downloads s @
             [\<lparr>filename = (if designName s = [] then ''fingerboard-designs'' else designName s)
                  @ ''-batch.zip'',
               payload = ZipFile zp\<rparr>]
         \<and> length (rasters zp) = length (batchColors s)
         \<and> rasters zp =
             map (\<lambda>j. ((if designName s = [] then ''design'' else designName s) @ ''-''
                          @ colorName (batchColors s ! j) @ ''.png'',
                        the_png (raster j (variant_scene s (batchColors s ! j)))))
               [0..<length (batchColors s)]
         \<and> distinct (map fst (rasters zp))
         \<and> (\<forall>e\<in>set zp. snd e = ZipDir \<or> (\<exists>b. (fst e, b) \<in> set (rasters zp)))"
    by (intro exI [of _ zp] conjI)
  with painted show ?thesis by (rule conjI)
qed

text \<open>
  An instance: the design \<^verbatim>\<open>decks/mine\<close> in two colours. The archive holds the two
  rasters in list order, after the folder entry that the first name brings with it.
\<close>

theorem batch_export_archive_witness:
  "batchColors (initialScene\<lparr>designName := ''decks/mine'', batchColors := [''#ff0000'', ''#00ff00'']\<rparr>) \<noteq> []
   \<and> distinct (batchColors (initialScene\<lparr>designName := ''decks/mine'', batchColors := [''#ff0000'', ''#00ff00'']\<rparr>))
   \<and> fst (handleBatchExport True (\<lambda>_. True) (\<lambda>i sc. Png (backgroundColor sc)) True
        (initialScene\<lparr>designName := ''decks/mine'', batchColors := [''#ff0000'', ''#00ff00'']\<rparr>))
       = [''#ff0000'', ''#00ff00'']
   \<and> (\<exists>zp. downloads (snd (handleBatchExport True (\<lambda>_. True) (\<lambda>i sc. Png (backgroundColor sc)) True
        (initialScene\<lparr>designName := ''decks/mine'', batchColors := [''#ff0000'', ''#00ff00'']\<rparr>)))
         = [\<lparr>filename = ''decks/mine-batch.zip'', payload = ZipFile zp\<rparr>]
       \<and> length (rasters zp) = 2
       \<and> rasters zp = [(''decks/mine-ff0000.png'', ''#ff0000''), (''decks/mine-00ff00.png'', ''#00ff00'')])
   \<and> downloads (snd (handleBatchExport True (\<lambda>_. True) (\<lambda>i sc. Png (backgroundColor sc)) True
        (initialScene\<lparr>designName := ''decks/mine'', batchColors := [''#ff0000'', ''#00ff00'']\<rparr>)))
       = [\<lparr>filename = ''decks/mine-batch.zip'',
           payload = ZipFile [(''decks/'', ZipDir),
                              (''decks/mine-ff0000.png'', ZipBlob ''#ff0000''),
                              (''decks/mine-00ff00.png'', ZipBlob ''#00ff00'')]\<rparr>]"
proof -
  let ?s = "initialScene\<lparr>designName := ''decks/mine'', batchColors := [''#ff0000'', ''#00ff00'']\<rparr>"
  have ne: "batchColors ?s \<noteq> []" by simp
  have d: "distinct (batchColors ?s)" by simp
  have hash: "\<forall>c\<in>set (batchColors ?s). c \<noteq> [] \<and> hd c = CHR ''#''" by simp
  have two: "[0..<2] = [0, Suc 0]" by (simp add: upt_rec)
  have ev: "downloads (snd (handleBatchExport True (\<lambda>_. True) (\<lambda>i sc. Png (backgroundColor sc)) True ?s))
       = [\<lparr>filename = ''decks/mine-batch.zip'',
           payload = ZipFile [(''decks/'', ZipDir),
                              (''decks/mine-ff0000.png'', ZipBlob ''#ff0000''),
                              (''decks/mine-00ff00.png'', ZipBlob ''#00ff00'')]\<rparr>]"
    by code_simp
  have ok: "\<forall>j<length (batchColors ?s). (\<lambda>_. True) j
      \<and> (\<exists>b. (\<lambda>i sc. Png (backgroundColor sc)) j (variant_scene ?s (batchColors ?s ! j)) = Png b)"
    by simp
  from batch_export_archive [where mounted = True and mountedAt = "\<lambda>_. True"
      and raster = "\<lambda>i sc. Png (backgroundColor sc)" and zipOk = True and s = ?s,
      OF TrueI ne d hash ok TrueI]
  obtain zp where p: "fst (handleBatchExport True (\<lambda>_. True) (\<lambda>i sc. Png (backgroundColor sc)) True ?s)
       = batchColors ?s"
    and dl: "downloads (snd (handleBatchExport True (\<lambda>_. True) (\<lambda>i sc. Png (backgroundColor sc)) True ?s))
         = downloads ?s @ [\<lparr>filename = (if designName ?s = [] then ''fingerboard-designs'' else designName ?s)
                  @ ''-batch.zip'', payload = ZipFile zp\<rparr>]"
    and len: "length (rasters zp) = length (batchColors ?s)"
    and ras: "rasters zp =
             map (\<lambda>j. ((if designName ?s = [] then ''design'' else designName ?s) @ ''-''
                          @ colorName (batchColors ?s ! j) @ ''.png'',
                        the_png (Png (backgroundColor (variant_scene ?s (batchColors ?s ! j))))))
               [0..<length (batchColors ?s)]"
    by blast
  from p have p': "fst (handleBatchExport True (\<lambda>_. True) (\<lambda>i sc. Png (backgroundColor sc)) True ?s)
       = [''#ff0000'', ''#00ff00'']" by simp
  from dl have dl': "downloads (snd (handleBatchExport True (\<lambda>_. True) (\<lambda>i sc. Png (backgroundColor sc)) True ?s))
         = [\<lparr>filename = ''decks/mine-batch.zip'', payload = ZipFile zp\<rparr>]"
    by (simp add: initialScene_def)
  from len have len': "length (rasters zp) = 2" by simp
  from ras have ras': "rasters zp = [(''decks/mine-ff0000.png'', ''#ff0000''), (''decks/mine-00ff00.png'', ''#00ff00'')]"
    by (simp add: variant_scene_def colorName_def the_png_def two)
  from dl' len' ras' have t: "\<exists>zp. downloads (snd (handleBatchExport True (\<lambda>_. True) (\<lambda>i sc. Png (backgroundColor sc)) True ?s))
         = [\<lparr>filename = ''decks/mine-batch.zip'', payload = ZipFile zp\<rparr>]
       \<and> length (rasters zp) = 2
       \<and> rasters zp = [(''decks/mine-ff0000.png'', ''#ff0000''), (''decks/mine-00ff00.png'', ''#00ff00'')]"
    by blast
  from ne d p' t ev show ?thesis by blast
qed

subsection \<open>The head of a filtered, sorted list\<close>

lemma sort_key_filter_head:
  assumes "sort_key f (filter P xs) = n # rest"
  shows "n \<in> set xs" and "P n" and "\<forall>x\<in>set xs. P x \<longrightarrow> f n \<le> f x"
    and "\<exists>us vs. xs = us @ n # vs \<and> (\<forall>u\<in>set us. P u \<longrightarrow> f u \<noteq> f n)"
proof -
  have mem: "n \<in> set (filter P xs)"
    by (metis assms list.set_intros(1) set_sort)
  then show "n \<in> set xs" and "P n" by simp_all
  have srt: "sorted (map f (n # rest))"
    using sorted_sort_key [of f "filter P xs"] by (simp only: assms)
  show "\<forall>x\<in>set xs. P x \<longrightarrow> f n \<le> f x"
  proof (intro ballI impI)
    fix x assume "x \<in> set xs" "P x"
    then have "x \<in> set (sort_key f (filter P xs))" by simp
    then have "x \<in> set (n # rest)" by (simp only: assms)
    with srt show "f n \<le> f x" by auto
  qed
  have "filter (\<lambda>y. f y = f n) (sort_key f (filter P xs)) = filter (\<lambda>y. f y = f n) (filter P xs)"
    by (rule sort_key_stable)
  then have "filter (\<lambda>y. P y \<and> f y = f n) xs = n # filter (\<lambda>y. f y = f n) rest"
    by (simp add: assms conj_commute)
  then obtain us vs where "xs = us @ n # vs" "\<forall>u\<in>set us. \<not> (P u \<and> f u = f n)"
    by (auto simp: filter_eq_Cons_iff)
  then show "\<exists>us vs. xs = us @ n # vs \<and> (\<forall>u\<in>set us. P u \<longrightarrow> f u \<noteq> f n)"
    by blast
qed

lemma sort_key_filter_Nil:
  "sort_key f (filter P xs) = [] \<longleftrightarrow> (\<forall>x\<in>set xs. \<not> P x)"
proof -
  have "sort_key f (filter P xs) = [] \<longleftrightarrow> filter P xs = []"
    by (metis length_0_conv length_sort)
  then show ?thesis by (simp add: filter_empty_conv)
qed

lemma find_id_Some:
  "find (\<lambda>t. te_id t = i) ts = Some x \<Longrightarrow> x \<in> set ts \<and> te_id x = i"
  by (auto simp: find_Some_iff)

lemma find_id_unique:
  "distinct (map te_id ts) \<Longrightarrow> x \<in> set ts \<Longrightarrow> find (\<lambda>t. te_id t = te_id x) ts = Some x"
proof (induction ts)
  case Nil
  then show ?case by simp
next
  case (Cons a ts)
  then show ?case by (auto simp: image_iff)
qed

lemma find_id_map:
  "(\<And>t. te_id (g t) = te_id t) \<Longrightarrow>
   find (\<lambda>t. te_id t = z) (map g ts) = map_option g (find (\<lambda>t. te_id t = z) ts)"
  by (induction ts) auto

subsection \<open>What each move returns\<close>

lemma append_last_split:
  "xs @ [a] = us @ a # vs \<Longrightarrow> a \<notin> set xs \<Longrightarrow> us = xs \<and> vs = []"
proof (induction xs arbitrary: us)
  case Nil
  then show ?case by (cases us) auto
next
  case (Cons x xs)
  then show ?case by (cases us) auto
qed

lemma allElementLayers_mem:
  "n \<in> set (allElementLayers ts il) \<Longrightarrow>
   (\<exists>y\<in>set ts. n = \<lparr>ref_id = te_id y, ref_layer = layer y, ref_type = TextT\<rparr>)
   \<or> n = \<lparr>ref_id = ''image'', ref_layer = il, ref_type = ImageT\<rparr>"
  by (auto simp: allElementLayers_def)

lemma allElementLayers_ball:
  "(\<forall>e\<in>set (allElementLayers ts il). Q (ref_layer e)) \<longleftrightarrow> (\<forall>t\<in>set ts. Q (layer t)) \<and> Q il"
  by (auto simp: allElementLayers_def)

lemma allElementLayers_image_first:
  assumes "allElementLayers ts il = us @ \<lparr>ref_id = ''image'', ref_layer = il, ref_type = ImageT\<rparr> # vs"
  shows "us = map (\<lambda>t. \<lparr>ref_id = te_id t, ref_layer = layer t, ref_type = TextT\<rparr>) ts"
proof -
  have "\<lparr>ref_id = ''image'', ref_layer = il, ref_type = ImageT\<rparr>
      \<notin> set (map (\<lambda>t. \<lparr>ref_id = te_id t, ref_layer = layer t, ref_type = TextT\<rparr>) ts)"
    by auto
  from append_last_split [OF assms [unfolded allElementLayers_def] this]
  show ?thesis by simp
qed

lemma moveLayerUp_cases:
  fixes s i x
  defines "ts \<equiv> textElements s" and "il \<equiv> imageLayer s"
  defines "G \<equiv> \<lambda>L t. if te_id t = i then t\<lparr>layer := L\<rparr>
                       else if layer t = L \<and> te_id t \<noteq> i then t\<lparr>layer := layer x\<rparr> else t"
  assumes f: "find (\<lambda>t. te_id t = i) (textElements s) = Some x"
  shows "((\<forall>t\<in>set ts. layer t \<le> layer x) \<and> il \<le> layer x \<and> moveLayerUp i s = s)
       \<or> (\<exists>y\<in>set ts. layer x < layer y
             \<and> (\<forall>t\<in>set ts. layer x < layer t \<longrightarrow> layer y \<le> layer t)
             \<and> (layer x < il \<longrightarrow> layer y \<le> il)
             \<and> moveLayerUp i s = s\<lparr>textElements := map (G (layer y)) ts\<rparr>)
       \<or> (layer x < il \<and> (\<forall>t\<in>set ts. layer x < layer t \<longrightarrow> il < layer t)
             \<and> moveLayerUp i s = s\<lparr>imageLayer := layer x, textElements := map (G il) ts\<rparr>)"
proof (cases "sort_key ref_layer (filter (\<lambda>e. ref_layer e > layer x) (allElementLayers ts il))")
  case Nil
  then have "\<forall>e\<in>set (allElementLayers ts il). \<not> layer x < ref_layer e"
    by (simp only: sort_key_filter_Nil)
  then have "(\<forall>t\<in>set ts. layer t \<le> layer x) \<and> il \<le> layer x"
    by (simp add: allElementLayers_ball [of _ _ "\<lambda>l. l \<le> layer x"] not_less)
  moreover have "moveLayerUp i s = s"
    using f Nil by (simp add: moveLayerUp_def ts_def il_def)
  ultimately show ?thesis by blast
next
  case (Cons n rest)
  note h = sort_key_filter_head [OF Cons]
  have res: "moveLayerUp i s =
      (if ref_type n = ImageT then s\<lparr>imageLayer := layer x\<rparr> else s)
        \<lparr>textElements := map (G (ref_layer n)) ts\<rparr>"
    using f Cons by (simp add: moveLayerUp_def ts_def il_def G_def Let_def)
  have min: "(\<forall>t\<in>set ts. layer x < layer t \<longrightarrow> ref_layer n \<le> layer t)
      \<and> (layer x < il \<longrightarrow> ref_layer n \<le> il)"
    using h(3) by (simp add: allElementLayers_ball [of _ _ "\<lambda>l. layer x < l \<longrightarrow> ref_layer n \<le> l"])
  from allElementLayers_mem [OF h(1)] show ?thesis
  proof
    assume "\<exists>y\<in>set ts. n = \<lparr>ref_id = te_id y, ref_layer = layer y, ref_type = TextT\<rparr>"
    then obtain y where y: "y \<in> set ts"
      "n = \<lparr>ref_id = te_id y, ref_layer = layer y, ref_type = TextT\<rparr>" by blast
    from y h(2) have a: "layer x < layer y" by simp
    from res y have b: "moveLayerUp i s = s\<lparr>textElements := map (G (layer y)) ts\<rparr>"
      by simp
    from min y have c: "(\<forall>t\<in>set ts. layer x < layer t \<longrightarrow> layer y \<le> layer t)
      \<and> (layer x < il \<longrightarrow> layer y \<le> il)" by simp
    from y(1) a b c show ?thesis by blast
  next
    assume n: "n = \<lparr>ref_id = ''image'', ref_layer = il, ref_type = ImageT\<rparr>"
    from h(4) obtain us vs where us: "allElementLayers ts il = us @ n # vs"
      "\<forall>u\<in>set us. layer x < ref_layer u \<longrightarrow> ref_layer u \<noteq> ref_layer n" by blast
    from allElementLayers_image_first [OF us(1) [unfolded n]]
    have "us = map (\<lambda>t. \<lparr>ref_id = te_id t, ref_layer = layer t, ref_type = TextT\<rparr>) ts" .
    with us(2) n have "\<forall>t\<in>set ts. layer x < layer t \<longrightarrow> layer t \<noteq> il" by simp
    with min n have "\<forall>t\<in>set ts. layer x < layer t \<longrightarrow> il < layer t"
      by fastforce
    moreover from n h(2) have "layer x < il" by simp
    moreover from res n have "moveLayerUp i s =
        s\<lparr>imageLayer := layer x, textElements := map (G il) ts\<rparr>" by simp
    ultimately show ?thesis by blast
  qed
qed

lemma moveLayerDown_cases:
  fixes s i x
  defines "ts \<equiv> textElements s" and "il \<equiv> imageLayer s"
  defines "G \<equiv> \<lambda>L t. if te_id t = i then t\<lparr>layer := L\<rparr>
                       else if layer t = L \<and> te_id t \<noteq> i then t\<lparr>layer := layer x\<rparr> else t"
  assumes f: "find (\<lambda>t. te_id t = i) (textElements s) = Some x"
  shows "((\<forall>t\<in>set ts. layer x \<le> layer t) \<and> layer x \<le> il \<and> moveLayerDown i s = s)
       \<or> (\<exists>y\<in>set ts. layer y < layer x
             \<and> (\<forall>t\<in>set ts. layer t < layer x \<longrightarrow> layer t \<le> layer y)
             \<and> (il < layer x \<longrightarrow> il \<le> layer y)
             \<and> moveLayerDown i s = s\<lparr>textElements := map (G (layer y)) ts\<rparr>)
       \<or> (il < layer x \<and> (\<forall>t\<in>set ts. layer t < layer x \<longrightarrow> layer t < il)
             \<and> moveLayerDown i s = s\<lparr>imageLayer := layer x, textElements := map (G il) ts\<rparr>)"
proof (cases "sort_key (\<lambda>e. - ref_layer e)
    (filter (\<lambda>e. ref_layer e < layer x) (allElementLayers ts il))")
  case Nil
  then have "\<forall>e\<in>set (allElementLayers ts il). \<not> ref_layer e < layer x"
    by (simp only: sort_key_filter_Nil)
  then have "(\<forall>t\<in>set ts. layer x \<le> layer t) \<and> layer x \<le> il"
    by (simp add: allElementLayers_ball [of _ _ "\<lambda>l. layer x \<le> l"] not_less)
  moreover have "moveLayerDown i s = s"
    using f Nil by (simp add: moveLayerDown_def ts_def il_def)
  ultimately show ?thesis by blast
next
  case (Cons n rest)
  note h = sort_key_filter_head [OF Cons]
  have res: "moveLayerDown i s =
      (if ref_type n = ImageT then s\<lparr>imageLayer := layer x\<rparr> else s)
        \<lparr>textElements := map (G (ref_layer n)) ts\<rparr>"
    using f Cons by (simp add: moveLayerDown_def ts_def il_def G_def Let_def)
  have max: "(\<forall>t\<in>set ts. layer t < layer x \<longrightarrow> layer t \<le> ref_layer n)
      \<and> (il < layer x \<longrightarrow> il \<le> ref_layer n)"
    using h(3)
    by (simp add: allElementLayers_ball [of _ _ "\<lambda>l. l < layer x \<longrightarrow> l \<le> ref_layer n"])
  from allElementLayers_mem [OF h(1)] show ?thesis
  proof
    assume "\<exists>y\<in>set ts. n = \<lparr>ref_id = te_id y, ref_layer = layer y, ref_type = TextT\<rparr>"
    then obtain y where y: "y \<in> set ts"
      "n = \<lparr>ref_id = te_id y, ref_layer = layer y, ref_type = TextT\<rparr>" by blast
    from y h(2) have a: "layer y < layer x" by simp
    from res y have b: "moveLayerDown i s = s\<lparr>textElements := map (G (layer y)) ts\<rparr>"
      by simp
    from max y have c: "(\<forall>t\<in>set ts. layer t < layer x \<longrightarrow> layer t \<le> layer y)
      \<and> (il < layer x \<longrightarrow> il \<le> layer y)" by simp
    from y(1) a b c show ?thesis by blast
  next
    assume n: "n = \<lparr>ref_id = ''image'', ref_layer = il, ref_type = ImageT\<rparr>"
    from h(4) obtain us vs where us: "allElementLayers ts il = us @ n # vs"
      "\<forall>u\<in>set us. ref_layer u < layer x \<longrightarrow> - ref_layer u \<noteq> - ref_layer n" by blast
    from allElementLayers_image_first [OF us(1) [unfolded n]]
    have "us = map (\<lambda>t. \<lparr>ref_id = te_id t, ref_layer = layer t, ref_type = TextT\<rparr>) ts" .
    with us(2) n have "\<forall>t\<in>set ts. layer t < layer x \<longrightarrow> layer t \<noteq> il" by simp
    with max n have "\<forall>t\<in>set ts. layer t < layer x \<longrightarrow> layer t < il"
      by fastforce
    moreover from n h(2) have "il < layer x" by simp
    moreover from res n have "moveLayerDown i s =
        s\<lparr>imageLayer := layer x, textElements := map (G il) ts\<rparr>" by simp
    ultimately show ?thesis by blast
  qed
qed

lemma pairs_mem:
  "n \<in> set (map (\<lambda>t. (te_id t, layer t)) ts) \<Longrightarrow> \<exists>y\<in>set ts. n = (te_id y, layer y)"
  by auto

lemma moveImageLayerUp_cases:
  fixes s
  defines "ts \<equiv> textElements s" and "il \<equiv> imageLayer s"
  shows "((\<forall>t\<in>set ts. layer t \<le> il) \<and> moveImageLayerUp s = s)
       \<or> (\<exists>y\<in>set ts. il < layer y
             \<and> (\<forall>t\<in>set ts. il < layer t \<longrightarrow> layer y \<le> layer t)
             \<and> moveImageLayerUp s =
                 s\<lparr>imageLayer := layer y,
                   textElements := map (\<lambda>t. if te_id t = te_id y then t\<lparr>layer := il\<rparr> else t) ts\<rparr>)"
proof (cases "sort_key snd (filter (\<lambda>e. snd e > il) (map (\<lambda>t. (te_id t, layer t)) ts))")
  case Nil
  then have "\<forall>e\<in>set (map (\<lambda>t. (te_id t, layer t)) ts). \<not> il < snd e"
    by (simp only: sort_key_filter_Nil)
  then have "\<forall>t\<in>set ts. layer t \<le> il"
    by (simp add: not_less)
  moreover have "moveImageLayerUp s = s"
    using Nil by (simp add: moveImageLayerUp_def ts_def il_def)
  ultimately show ?thesis by blast
next
  case (Cons n rest)
  note h = sort_key_filter_head [OF Cons]
  from pairs_mem [OF h(1)] obtain y where y: "y \<in> set ts" "n = (te_id y, layer y)" by blast
  have res: "moveImageLayerUp s =
      s\<lparr>imageLayer := layer y,
        textElements := map (\<lambda>t. if te_id t = te_id y then t\<lparr>layer := il\<rparr> else t) ts\<rparr>"
    using Cons y by (simp add: moveImageLayerUp_def ts_def il_def Let_def)
  have min: "\<forall>t\<in>set ts. il < layer t \<longrightarrow> layer y \<le> layer t"
    using h(3) y by simp
  from y h(2) have a: "il < layer y" by simp
  from y(1) a min res show ?thesis by blast
qed

lemma moveImageLayerDown_cases:
  fixes s
  defines "ts \<equiv> textElements s" and "il \<equiv> imageLayer s"
  shows "((\<forall>t\<in>set ts. il \<le> layer t) \<and> moveImageLayerDown s = s)
       \<or> (\<exists>y\<in>set ts. layer y < il
             \<and> (\<forall>t\<in>set ts. layer t < il \<longrightarrow> layer t \<le> layer y)
             \<and> moveImageLayerDown s =
                 s\<lparr>imageLayer := layer y,
                   textElements := map (\<lambda>t. if te_id t = te_id y then t\<lparr>layer := il\<rparr> else t) ts\<rparr>)"
proof (cases "sort_key (\<lambda>e. - snd e) (filter (\<lambda>e. snd e < il) (map (\<lambda>t. (te_id t, layer t)) ts))")
  case Nil
  then have "\<forall>e\<in>set (map (\<lambda>t. (te_id t, layer t)) ts). \<not> snd e < il"
    by (simp only: sort_key_filter_Nil)
  then have "\<forall>t\<in>set ts. il \<le> layer t"
    by (simp add: not_less)
  moreover have "moveImageLayerDown s = s"
    using Nil by (simp add: moveImageLayerDown_def ts_def il_def)
  ultimately show ?thesis by blast
next
  case (Cons n rest)
  note h = sort_key_filter_head [OF Cons]
  from pairs_mem [OF h(1)] obtain y where y: "y \<in> set ts" "n = (te_id y, layer y)" by blast
  have res: "moveImageLayerDown s =
      s\<lparr>imageLayer := layer y,
        textElements := map (\<lambda>t. if te_id t = te_id y then t\<lparr>layer := il\<rparr> else t) ts\<rparr>"
    using Cons y by (simp add: moveImageLayerDown_def ts_def il_def Let_def)
  have max: "\<forall>t\<in>set ts. layer t < il \<longrightarrow> layer t \<le> layer y"
    using h(3) y by simp
  from y h(2) have a: "layer y < il" by simp
  from y(1) a max res show ?thesis by blast
qed

subsection \<open>Exchanging two layers\<close>

lemma mset_map_transpose:
  assumes "distinct ls" "a \<in> set ls" "b \<in> set ls"
  shows "mset (map (\<lambda>l. if l = a then b else if l = b then a else l) ls) = mset ls"
proof -
  let ?f = "\<lambda>l. if l = a then b else if l = b then a else l"
  have inj: "inj_on ?f (set ls)" by (auto simp: inj_on_def split: if_splits)
  have img: "?f ` set ls = set ls" using assms(2,3) by (auto simp: image_iff split: if_splits)
  have "mset (map ?f ls) = image_mset ?f (mset_set (set ls))"
    using assms(1) by (simp add: mset_set_set)
  also have "\<dots> = mset_set (?f ` set ls)" using inj by (rule image_mset_mset_set)
  also have "\<dots> = mset ls" using assms(1) by (simp only: img mset_set_set)
  finally show ?thesis .
qed

lemma id_inj: "distinct (map te_id ts) \<Longrightarrow> a \<in> set ts \<Longrightarrow> b \<in> set ts \<Longrightarrow> te_id a = te_id b \<Longrightarrow> a = b"
  by (auto simp: distinct_map inj_on_def)

lemma layer_inj: "distinct (map layer ts) \<Longrightarrow> a \<in> set ts \<Longrightarrow> b \<in> set ts \<Longrightarrow> layer a = layer b \<Longrightarrow> a = b"
  by (auto simp: distinct_map inj_on_def)

lemma entry_layer_entries:
  "Z \<in> set (ordering_entries s) \<Longrightarrow> Z = ImageRef \<or> (\<exists>z\<in>set (textElements s). Z = TextRef (te_id z))"
  by (auto simp: ordering_entries_def)

lemma exchange_text_text:
  fixes s i x y
  defines "ts \<equiv> textElements s"
  defines "G \<equiv> \<lambda>t. if te_id t = i then t\<lparr>layer := layer y\<rparr>
                     else if layer t = layer y \<and> te_id t \<noteq> i then t\<lparr>layer := layer x\<rparr> else t"
  assumes di: "distinct (map te_id ts)" and dl: "distinct (map layer ts)"
    and f: "find (\<lambda>t. te_id t = i) ts = Some x" and y: "y \<in> set ts"
    and ne: "layer y \<noteq> layer x"
  shows "exchanged s (s\<lparr>textElements := map G ts\<rparr>) (TextRef i) (TextRef (te_id y))"
proof -
  let ?s' = "s\<lparr>textElements := map G ts\<rparr>"
  from find_id_Some [OF f] have x: "x \<in> set ts" "te_id x = i" by simp_all
  have yi: "te_id y \<noteq> i"
    using id_inj [OF di y x(1)] x(2) ne by auto
  have Gid: "\<And>t. te_id (G t) = te_id t" by (simp add: G_def)
  have fnd: "\<And>z. find (\<lambda>t. te_id t = z) (map G ts) = map_option G (find (\<lambda>t. te_id t = z) ts)"
    by (rule find_id_map) (rule Gid)
  have fy: "find (\<lambda>t. te_id t = te_id y) ts = Some y"
    by (rule find_id_unique [OF di y])
  have Gx: "G x = x\<lparr>layer := layer y\<rparr>" using x(2) by (simp add: G_def)
  have Gy: "G y = y\<lparr>layer := layer x\<rparr>" using yi by (simp add: G_def)
  have lo: "\<And>z. entry_layer ?s' (TextRef z) = map_option (\<lambda>t. layer (G t)) (find (\<lambda>t. te_id t = z) ts)"
    by (simp add: fnd option.map_comp comp_def)
  have lo0: "\<And>z. entry_layer s (TextRef z) = map_option layer (find (\<lambda>t. te_id t = z) ts)"
    by (simp add: ts_def)
  have 1: "TextRef i \<noteq> TextRef (te_id y)" using yi by simp
  have 2: "ordering_entries ?s' = ordering_entries s"
    by (simp add: ordering_entries_def ts_def [symmetric] comp_def Gid)
  have 3: "entry_layer ?s' (TextRef i) = entry_layer s (TextRef (te_id y))"
    unfolding lo lo0 f fy by (simp add: Gx)
  have 4: "entry_layer ?s' (TextRef (te_id y)) = entry_layer s (TextRef i)"
    unfolding lo lo0 f fy by (simp add: Gy)
  have 5: "\<forall>Z\<in>set (ordering_entries s). Z \<noteq> TextRef i \<and> Z \<noteq> TextRef (te_id y) \<longrightarrow>
      entry_layer ?s' Z = entry_layer s Z"
  proof (intro ballI impI)
    fix Z assume Z: "Z \<in> set (ordering_entries s)" "Z \<noteq> TextRef i \<and> Z \<noteq> TextRef (te_id y)"
    from entry_layer_entries [OF Z(1)] show "entry_layer ?s' Z = entry_layer s Z"
    proof
      assume "Z = ImageRef" then show ?thesis by simp
    next
      assume "\<exists>z\<in>set (textElements s). Z = TextRef (te_id z)"
      then obtain z where z: "z \<in> set ts" "Z = TextRef (te_id z)" by (auto simp: ts_def)
      with Z(2) have zi: "te_id z \<noteq> i" "te_id z \<noteq> te_id y" by simp_all
      have "layer z \<noteq> layer y" using layer_inj [OF dl z(1) y] zi(2) by auto
      with zi(1) have Gz: "G z = z" by (simp add: G_def)
      have fz: "find (\<lambda>t. te_id t = te_id z) ts = Some z"
        by (rule find_id_unique [OF di z(1)])
      show ?thesis unfolding z(2) lo lo0 fz by (simp add: Gz)
    qed
  qed
  have tr: "map layer (map G ts) =
      map (\<lambda>l. if l = layer x then layer y else if l = layer y then layer x else l) (map layer ts)"
  proof -
    have "\<And>t. t \<in> set ts \<Longrightarrow>
        layer (G t) = (if layer t = layer x then layer y
                       else if layer t = layer y then layer x else layer t)"
    proof -
      fix t assume t: "t \<in> set ts"
      have "te_id t = i \<longleftrightarrow> layer t = layer x"
        using id_inj [OF di t x(1)] layer_inj [OF dl t x(1)] x(2) by auto
      then show "layer (G t) = (if layer t = layer x then layer y
                       else if layer t = layer y then layer x else layer t)"
        by (simp add: G_def)
    qed
    then show ?thesis by simp
  qed
  have 6: "mset (ordering_layers ?s') = mset (ordering_layers s)"
  proof -
    have "mset (map layer (map G ts)) = mset (map layer ts)"
      unfolding tr using dl x(1) y by (intro mset_map_transpose) simp_all
    then show ?thesis by (simp add: ordering_layers_def ts_def [symmetric])
  qed
  from 1 2 3 4 5 6 show ?thesis unfolding exchanged_def by blast
qed

lemma exchanged_sym: "exchanged s s' X Y \<Longrightarrow> exchanged s s' Y X"
  unfolding exchanged_def by auto

lemma exchange_text_image:
  fixes s i x
  defines "ts \<equiv> textElements s" and "il \<equiv> imageLayer s"
  defines "g \<equiv> \<lambda>t. if te_id t = i then t\<lparr>layer := il\<rparr> else t"
  assumes di: "distinct (map te_id ts)"
    and f: "find (\<lambda>t. te_id t = i) ts = Some x"
  shows "exchanged s (s\<lparr>imageLayer := layer x, textElements := map g ts\<rparr>) (TextRef i) ImageRef"
proof -
  let ?s' = "s\<lparr>imageLayer := layer x, textElements := map g ts\<rparr>"
  from find_id_Some [OF f] have x: "x \<in> set ts" "te_id x = i" by simp_all
  have gid: "\<And>t. te_id (g t) = te_id t" by (simp add: g_def)
  have fnd: "\<And>z. find (\<lambda>t. te_id t = z) (map g ts) = map_option g (find (\<lambda>t. te_id t = z) ts)"
    by (rule find_id_map) (rule gid)
  have gx: "g x = x\<lparr>layer := il\<rparr>" using x(2) by (simp add: g_def)
  have lo: "\<And>z. entry_layer ?s' (TextRef z) = map_option (\<lambda>t. layer (g t)) (find (\<lambda>t. te_id t = z) ts)"
    by (simp add: fnd option.map_comp comp_def)
  have lo0: "\<And>z. entry_layer s (TextRef z) = map_option layer (find (\<lambda>t. te_id t = z) ts)"
    by (simp add: ts_def)
  have 1: "TextRef i \<noteq> ImageRef" by simp
  have 2: "ordering_entries ?s' = ordering_entries s"
    by (simp add: ordering_entries_def ts_def [symmetric] comp_def gid)
  have 3: "entry_layer ?s' (TextRef i) = entry_layer s ImageRef"
    unfolding lo f by (simp add: gx il_def)
  have 4: "entry_layer ?s' ImageRef = entry_layer s (TextRef i)"
    unfolding lo0 f by simp
  have 5: "\<forall>Z\<in>set (ordering_entries s). Z \<noteq> TextRef i \<and> Z \<noteq> ImageRef \<longrightarrow>
      entry_layer ?s' Z = entry_layer s Z"
  proof (intro ballI impI)
    fix Z assume Z: "Z \<in> set (ordering_entries s)" "Z \<noteq> TextRef i \<and> Z \<noteq> ImageRef"
    from entry_layer_entries [OF Z(1)] Z(2)
    obtain z where z: "z \<in> set ts" "Z = TextRef (te_id z)" by (auto simp: ts_def)
    with Z(2) have "te_id z \<noteq> i" by simp
    then have gz: "g z = z" by (simp add: g_def)
    have fz: "find (\<lambda>t. te_id t = te_id z) ts = Some z"
      by (rule find_id_unique [OF di z(1)])
    show "entry_layer ?s' Z = entry_layer s Z" unfolding z(2) lo lo0 fz by (simp add: gz)
  qed
  have 6: "mset (ordering_layers ?s') = mset (ordering_layers s)"
  proof -
    from split_list [OF x(1)] obtain us vs where sp: "ts = us @ x # vs" by blast
    with di x(2) have "i \<notin> te_id ` set us" "i \<notin> te_id ` set vs" by auto
    then have "map g us = us" "map g vs = vs"
      by (auto simp: g_def intro!: map_idI)
    then have "map g ts = us @ x\<lparr>layer := il\<rparr> # vs"
      by (simp add: sp gx)
    then have "ordering_layers ?s' = map layer us @ il # map layer vs @ [layer x]"
      by (simp add: ordering_layers_def)
    moreover have "ordering_layers s = map layer us @ layer x # map layer vs @ [il]"
      by (simp add: ordering_layers_def ts_def [symmetric] il_def sp)
    ultimately show ?thesis by simp
  qed
  from 1 2 3 4 5 6 show ?thesis unfolding exchanged_def by blast
qed

lemma Min_above:
  "L \<in> set ls \<Longrightarrow> lx < L \<Longrightarrow> \<forall>l\<in>set ls. lx < l \<longrightarrow> L \<le> l \<Longrightarrow>
   Min {l \<in> set ls. lx < l} = (L::int)"
  by (intro Min_eqI) auto

lemma Max_below:
  "L \<in> set ls \<Longrightarrow> L < lx \<Longrightarrow> \<forall>l\<in>set ls. l < lx \<longrightarrow> l \<le> L \<Longrightarrow>
   Max {l \<in> set ls. l < lx} = (L::int)"
  by (intro Max_eqI) auto

lemma entry_layer_text:
  "entry_layer s (TextRef i) = Some lx \<Longrightarrow>
   \<exists>x. find (\<lambda>t. te_id t = i) (textElements s) = Some x \<and> layer x = lx"
  by auto

lemma text_in_entries:
  "y \<in> set (textElements s) \<Longrightarrow> TextRef (te_id y) \<in> set (ordering_entries s)"
  by (auto simp: ordering_entries_def)

lemma entry_layer_unique:
  "distinct (map te_id (textElements s)) \<Longrightarrow> y \<in> set (textElements s) \<Longrightarrow>
   entry_layer s (TextRef (te_id y)) = Some (layer y)"
  by (simp add: find_id_unique)

lemma up_text:
  assumes di: "distinct (map te_id (textElements s))"
    and dl: "distinct (map layer (textElements s))"
    and lx: "entry_layer s (TextRef i) = Some lx"
  shows "if \<forall>l\<in>set (ordering_layers s). l \<le> lx then moveLayerUp i s = s
         else \<exists>Y\<in>set (ordering_entries s).
                entry_layer s Y = Some (Min {l \<in> set (ordering_layers s). lx < l})
                \<and> exchanged s (moveLayerUp i s) (TextRef i) Y"
proof -
  let ?ts = "textElements s" and ?il = "imageLayer s"
  from entry_layer_text [OF lx] obtain x
    where f: "find (\<lambda>t. te_id t = i) ?ts = Some x" and x: "layer x = lx" by blast
  from moveLayerUp_cases [OF f] consider
    (noop) "\<forall>t\<in>set ?ts. layer t \<le> layer x" "?il \<le> layer x" "moveLayerUp i s = s"
  | (totext) y where "y \<in> set ?ts" "layer x < layer y"
      "\<forall>t\<in>set ?ts. layer x < layer t \<longrightarrow> layer y \<le> layer t"
      "layer x < ?il \<longrightarrow> layer y \<le> ?il"
      "moveLayerUp i s = s\<lparr>textElements := map (\<lambda>t. if te_id t = i then t\<lparr>layer := layer y\<rparr>
          else if layer t = layer y \<and> te_id t \<noteq> i then t\<lparr>layer := layer x\<rparr> else t) ?ts\<rparr>"
  | (toimage) "layer x < ?il" "\<forall>t\<in>set ?ts. layer x < layer t \<longrightarrow> ?il < layer t"
      "moveLayerUp i s = s\<lparr>imageLayer := layer x,
          textElements := map (\<lambda>t. if te_id t = i then t\<lparr>layer := ?il\<rparr>
          else if layer t = ?il \<and> te_id t \<noteq> i then t\<lparr>layer := layer x\<rparr> else t) ?ts\<rparr>"
    by blast
  then show ?thesis
  proof cases
    case noop
    then have "\<forall>l\<in>set (ordering_layers s). l \<le> lx"
      by (auto simp: ordering_layers_def x)
    with noop(3) show ?thesis by simp
  next
    case totext
    have top: "\<not> (\<forall>l\<in>set (ordering_layers s). l \<le> lx)"
      using totext(1,2) x by (auto simp: ordering_layers_def not_le intro!: bexI [of _ y])
    have "Min {l \<in> set (ordering_layers s). lx < l} = layer y"
      using totext(1-4) x by (intro Min_above) (auto simp: ordering_layers_def)
    with entry_layer_unique [OF di totext(1)]
    have a: "entry_layer s (TextRef (te_id y)) = Some (Min {l \<in> set (ordering_layers s). lx < l})"
      by simp
    have b: "exchanged s (moveLayerUp i s) (TextRef i) (TextRef (te_id y))"
      unfolding totext(5) using totext(2) by (intro exchange_text_text [OF di dl f totext(1)]) simp
    from text_in_entries [OF totext(1)] a b
    have "\<exists>Y\<in>set (ordering_entries s).
        entry_layer s Y = Some (Min {l \<in> set (ordering_layers s). lx < l})
        \<and> exchanged s (moveLayerUp i s) (TextRef i) Y" by blast
    with top show ?thesis by (simp only: if_False)
  next
    case toimage
    have top: "\<not> (\<forall>l\<in>set (ordering_layers s). l \<le> lx)"
      using toimage(1) x by (auto simp: ordering_layers_def not_le)
    have "Min {l \<in> set (ordering_layers s). lx < l} = ?il"
      using toimage(1,2) x by (intro Min_above) (auto simp: ordering_layers_def)
    then have a: "entry_layer s ImageRef = Some (Min {l \<in> set (ordering_layers s). lx < l})"
      by simp
    have meq: "map (\<lambda>t. if te_id t = i then t\<lparr>layer := ?il\<rparr>
          else if layer t = ?il \<and> te_id t \<noteq> i then t\<lparr>layer := layer x\<rparr> else t) ?ts
        = map (\<lambda>t. if te_id t = i then t\<lparr>layer := ?il\<rparr> else t) ?ts"
      using toimage(1,2) by (intro map_cong) auto
    have b: "exchanged s (moveLayerUp i s) (TextRef i) ImageRef"
      unfolding toimage(3) meq by (rule exchange_text_image [OF di f])
    have "ImageRef \<in> set (ordering_entries s)" by (simp add: ordering_entries_def)
    with a b have "\<exists>Y\<in>set (ordering_entries s).
        entry_layer s Y = Some (Min {l \<in> set (ordering_layers s). lx < l})
        \<and> exchanged s (moveLayerUp i s) (TextRef i) Y" by blast
    with top show ?thesis by (simp only: if_False)
  qed
qed

lemma down_text:
  assumes di: "distinct (map te_id (textElements s))"
    and dl: "distinct (map layer (textElements s))"
    and lx: "entry_layer s (TextRef i) = Some lx"
  shows "if \<forall>l\<in>set (ordering_layers s). lx \<le> l then moveLayerDown i s = s
         else \<exists>Y\<in>set (ordering_entries s).
                entry_layer s Y = Some (Max {l \<in> set (ordering_layers s). l < lx})
                \<and> exchanged s (moveLayerDown i s) (TextRef i) Y"
proof -
  let ?ts = "textElements s" and ?il = "imageLayer s"
  from entry_layer_text [OF lx] obtain x
    where f: "find (\<lambda>t. te_id t = i) ?ts = Some x" and x: "layer x = lx" by blast
  from moveLayerDown_cases [OF f] consider
    (noop) "\<forall>t\<in>set ?ts. layer x \<le> layer t" "layer x \<le> ?il" "moveLayerDown i s = s"
  | (totext) y where "y \<in> set ?ts" "layer y < layer x"
      "\<forall>t\<in>set ?ts. layer t < layer x \<longrightarrow> layer t \<le> layer y"
      "?il < layer x \<longrightarrow> ?il \<le> layer y"
      "moveLayerDown i s = s\<lparr>textElements := map (\<lambda>t. if te_id t = i then t\<lparr>layer := layer y\<rparr>
          else if layer t = layer y \<and> te_id t \<noteq> i then t\<lparr>layer := layer x\<rparr> else t) ?ts\<rparr>"
  | (toimage) "?il < layer x" "\<forall>t\<in>set ?ts. layer t < layer x \<longrightarrow> layer t < ?il"
      "moveLayerDown i s = s\<lparr>imageLayer := layer x,
          textElements := map (\<lambda>t. if te_id t = i then t\<lparr>layer := ?il\<rparr>
          else if layer t = ?il \<and> te_id t \<noteq> i then t\<lparr>layer := layer x\<rparr> else t) ?ts\<rparr>"
    by blast
  then show ?thesis
  proof cases
    case noop
    then have "\<forall>l\<in>set (ordering_layers s). lx \<le> l"
      by (auto simp: ordering_layers_def x)
    with noop(3) show ?thesis by simp
  next
    case totext
    have top: "\<not> (\<forall>l\<in>set (ordering_layers s). lx \<le> l)"
      using totext(1,2) x by (auto simp: ordering_layers_def not_le intro!: bexI [of _ y])
    have "Max {l \<in> set (ordering_layers s). l < lx} = layer y"
      using totext(1-4) x by (intro Max_below) (auto simp: ordering_layers_def)
    with entry_layer_unique [OF di totext(1)]
    have a: "entry_layer s (TextRef (te_id y)) = Some (Max {l \<in> set (ordering_layers s). l < lx})"
      by simp
    have b: "exchanged s (moveLayerDown i s) (TextRef i) (TextRef (te_id y))"
      unfolding totext(5) using totext(2) by (intro exchange_text_text [OF di dl f totext(1)]) simp
    from text_in_entries [OF totext(1)] a b
    have "\<exists>Y\<in>set (ordering_entries s).
        entry_layer s Y = Some (Max {l \<in> set (ordering_layers s). l < lx})
        \<and> exchanged s (moveLayerDown i s) (TextRef i) Y" by blast
    with top show ?thesis by (simp only: if_False)
  next
    case toimage
    have top: "\<not> (\<forall>l\<in>set (ordering_layers s). lx \<le> l)"
      using toimage(1) x by (auto simp: ordering_layers_def not_le)
    have "Max {l \<in> set (ordering_layers s). l < lx} = ?il"
      using toimage(1,2) x by (intro Max_below) (auto simp: ordering_layers_def)
    then have a: "entry_layer s ImageRef = Some (Max {l \<in> set (ordering_layers s). l < lx})"
      by simp
    have meq: "map (\<lambda>t. if te_id t = i then t\<lparr>layer := ?il\<rparr>
          else if layer t = ?il \<and> te_id t \<noteq> i then t\<lparr>layer := layer x\<rparr> else t) ?ts
        = map (\<lambda>t. if te_id t = i then t\<lparr>layer := ?il\<rparr> else t) ?ts"
      using toimage(1,2) by (intro map_cong) auto
    have b: "exchanged s (moveLayerDown i s) (TextRef i) ImageRef"
      unfolding toimage(3) meq by (rule exchange_text_image [OF di f])
    have "ImageRef \<in> set (ordering_entries s)" by (simp add: ordering_entries_def)
    with a b have "\<exists>Y\<in>set (ordering_entries s).
        entry_layer s Y = Some (Max {l \<in> set (ordering_layers s). l < lx})
        \<and> exchanged s (moveLayerDown i s) (TextRef i) Y" by blast
    with top show ?thesis by (simp only: if_False)
  qed
qed

lemma up_image:
  assumes di: "distinct (map te_id (textElements s))"
  shows "if \<forall>l\<in>set (ordering_layers s). l \<le> imageLayer s then moveImageLayerUp s = s
         else \<exists>Y\<in>set (ordering_entries s).
                entry_layer s Y = Some (Min {l \<in> set (ordering_layers s). imageLayer s < l})
                \<and> exchanged s (moveImageLayerUp s) ImageRef Y"
proof -
  let ?ts = "textElements s" and ?il = "imageLayer s"
  from moveImageLayerUp_cases [of s] consider
    (noop) "\<forall>t\<in>set ?ts. layer t \<le> ?il" "moveImageLayerUp s = s"
  | (swap) y where "y \<in> set ?ts" "?il < layer y"
      "\<forall>t\<in>set ?ts. ?il < layer t \<longrightarrow> layer y \<le> layer t"
      "moveImageLayerUp s = s\<lparr>imageLayer := layer y,
         textElements := map (\<lambda>t. if te_id t = te_id y then t\<lparr>layer := ?il\<rparr> else t) ?ts\<rparr>"
    by blast
  then show ?thesis
  proof cases
    case noop
    then have "\<forall>l\<in>set (ordering_layers s). l \<le> ?il"
      by (auto simp: ordering_layers_def)
    with noop(2) show ?thesis by simp
  next
    case swap
    have top: "\<not> (\<forall>l\<in>set (ordering_layers s). l \<le> ?il)"
      using swap(1,2) by (auto simp: ordering_layers_def not_le intro!: bexI [of _ y])
    have "Min {l \<in> set (ordering_layers s). ?il < l} = layer y"
      using swap(1-3) by (intro Min_above) (auto simp: ordering_layers_def)
    with entry_layer_unique [OF di swap(1)]
    have a: "entry_layer s (TextRef (te_id y)) = Some (Min {l \<in> set (ordering_layers s). ?il < l})"
      by simp
    have "exchanged s (moveImageLayerUp s) (TextRef (te_id y)) ImageRef"
      unfolding swap(4) by (rule exchange_text_image [OF di find_id_unique [OF di swap(1)]])
    then have b: "exchanged s (moveImageLayerUp s) ImageRef (TextRef (te_id y))"
      by (rule exchanged_sym)
    from text_in_entries [OF swap(1)] a b
    have "\<exists>Y\<in>set (ordering_entries s).
        entry_layer s Y = Some (Min {l \<in> set (ordering_layers s). ?il < l})
        \<and> exchanged s (moveImageLayerUp s) ImageRef Y" by blast
    with top show ?thesis by (simp only: if_False)
  qed
qed

lemma down_image:
  assumes di: "distinct (map te_id (textElements s))"
  shows "if \<forall>l\<in>set (ordering_layers s). imageLayer s \<le> l then moveImageLayerDown s = s
         else \<exists>Y\<in>set (ordering_entries s).
                entry_layer s Y = Some (Max {l \<in> set (ordering_layers s). l < imageLayer s})
                \<and> exchanged s (moveImageLayerDown s) ImageRef Y"
proof -
  let ?ts = "textElements s" and ?il = "imageLayer s"
  from moveImageLayerDown_cases [of s] consider
    (noop) "\<forall>t\<in>set ?ts. ?il \<le> layer t" "moveImageLayerDown s = s"
  | (swap) y where "y \<in> set ?ts" "layer y < ?il"
      "\<forall>t\<in>set ?ts. layer t < ?il \<longrightarrow> layer t \<le> layer y"
      "moveImageLayerDown s = s\<lparr>imageLayer := layer y,
         textElements := map (\<lambda>t. if te_id t = te_id y then t\<lparr>layer := ?il\<rparr> else t) ?ts\<rparr>"
    by blast
  then show ?thesis
  proof cases
    case noop
    then have "\<forall>l\<in>set (ordering_layers s). ?il \<le> l"
      by (auto simp: ordering_layers_def)
    with noop(2) show ?thesis by simp
  next
    case swap
    have top: "\<not> (\<forall>l\<in>set (ordering_layers s). ?il \<le> l)"
      using swap(1,2) by (auto simp: ordering_layers_def not_le intro!: bexI [of _ y])
    have "Max {l \<in> set (ordering_layers s). l < ?il} = layer y"
      using swap(1-3) by (intro Max_below) (auto simp: ordering_layers_def)
    with entry_layer_unique [OF di swap(1)]
    have a: "entry_layer s (TextRef (te_id y)) = Some (Max {l \<in> set (ordering_layers s). l < ?il})"
      by simp
    have "exchanged s (moveImageLayerDown s) (TextRef (te_id y)) ImageRef"
      unfolding swap(4) by (rule exchange_text_image [OF di find_id_unique [OF di swap(1)]])
    then have b: "exchanged s (moveImageLayerDown s) ImageRef (TextRef (te_id y))"
      by (rule exchanged_sym)
    from text_in_entries [OF swap(1)] a b
    have "\<exists>Y\<in>set (ordering_entries s).
        entry_layer s Y = Some (Max {l \<in> set (ordering_layers s). l < ?il})
        \<and> exchanged s (moveImageLayerDown s) ImageRef Y" by blast
    with top show ?thesis by (simp only: if_False)
  qed
qed

text \<open>
  With an image loaded, the entries of the order are the elements of the scene.
\<close>

lemma ordering_is_live:
  assumes "imageUrl s \<noteq> []"
  shows "elements s = ordering_entries s \<and> all_layers s = ordering_layers s
     \<and> layer_of s = entry_layer s"
proof -
  have "layer_of s Z = entry_layer s Z" for Z
    using assms by (cases Z) simp_all
  then have "layer_of s = entry_layer s" by (rule ext)
  with assms show ?thesis
    by (simp add: elements_def ordering_entries_def all_layers_def ordering_layers_def)
qed

lemma moveUp_imageUrl: "imageUrl (moveUp X s) = imageUrl s"
  by (cases X)
    (simp_all add: moveLayerUp_def moveImageLayerUp_def Let_def split: option.splits list.splits)

lemma moveDown_imageUrl: "imageUrl (moveDown X s) = imageUrl s"
  by (cases X)
    (simp_all add: moveLayerDown_def moveImageLayerDown_def Let_def split: option.splits list.splits)

text \<open>
  C3, as amended. The order that the moves work on holds every text and the image's
  layer, and it holds the image's layer whether or not an image is loaded. In a scene
  whose text ids are pairwise distinct and whose text layers are pairwise distinct, for
  every entry \<open>X\<close> of that order, a text or the image: when no entry lies above \<open>X\<close>
  the move up returns the scene unchanged; otherwise there is one entry \<open>Y\<close> that holds
  the least layer above \<open>X\<close>'s, and the move up exchanges the layers of \<open>X\<close> and
  \<open>Y\<close>, keeps every other entry's layer and keeps the multiset of layers. The same
  holds for the move down with the greatest layer below. When an image is loaded, the
  entries of the order are exactly the elements of the scene, before and after the move,
  so that the statement is then one about the scene's elements.
\<close>

theorem move_exchanges_with_neighbour:
  assumes "distinct (map te_id (textElements s))" and "distinct (map layer (textElements s))"
    and "entry_layer s X = Some lx"
  shows "(if \<forall>l\<in>set (ordering_layers s). l \<le> lx then moveUp X s = s
          else \<exists>Y\<in>set (ordering_entries s).
                 entry_layer s Y = Some (Min {l \<in> set (ordering_layers s). lx < l})
                 \<and> exchanged s (moveUp X s) X Y)
       \<and> (if \<forall>l\<in>set (ordering_layers s). lx \<le> l then moveDown X s = s
          else \<exists>Y\<in>set (ordering_entries s).
                 entry_layer s Y = Some (Max {l \<in> set (ordering_layers s). l < lx})
                 \<and> exchanged s (moveDown X s) X Y)
       \<and> (imageUrl s \<noteq> [] \<longrightarrow>
            (\<forall>s'\<in>{s, moveUp X s, moveDown X s}.
               elements s' = ordering_entries s' \<and> all_layers s' = ordering_layers s'
               \<and> layer_of s' = entry_layer s'))"
proof -
  have moves: "(if \<forall>l\<in>set (ordering_layers s). l \<le> lx then moveUp X s = s
          else \<exists>Y\<in>set (ordering_entries s).
                 entry_layer s Y = Some (Min {l \<in> set (ordering_layers s). lx < l})
                 \<and> exchanged s (moveUp X s) X Y)
       \<and> (if \<forall>l\<in>set (ordering_layers s). lx \<le> l then moveDown X s = s
          else \<exists>Y\<in>set (ordering_entries s).
                 entry_layer s Y = Some (Max {l \<in> set (ordering_layers s). l < lx})
                 \<and> exchanged s (moveDown X s) X Y)"
  proof (cases X)
    case (TextRef i)
    with assms up_text [of s i lx] down_text [of s i lx] show ?thesis by simp
  next
    case ImageRef
    with assms have "lx = imageLayer s" by simp
    with ImageRef assms(1) up_image [of s] down_image [of s] show ?thesis by simp
  qed
  have live: "imageUrl s \<noteq> [] \<longrightarrow>
            (\<forall>s'\<in>{s, moveUp X s, moveDown X s}.
               elements s' = ordering_entries s' \<and> all_layers s' = ordering_layers s'
               \<and> layer_of s' = entry_layer s')"
  proof (intro impI ballI)
    fix s' assume u: "imageUrl s \<noteq> []" and "s' \<in> {s, moveUp X s, moveDown X s}"
    then have "imageUrl s' = imageUrl s"
      using moveUp_imageUrl [of X s] moveDown_imageUrl [of X s] by auto
    with u have "imageUrl s' \<noteq> []" by simp
    then show "elements s' = ordering_entries s' \<and> all_layers s' = ordering_layers s'
               \<and> layer_of s' = entry_layer s'"
      by (rule ordering_is_live)
  qed
  from moves live show ?thesis by simp
qed

text \<open>
  An instance, with an image loaded: after three text boxes are added and the first is
  deleted, the texts hold layers 1 and 2 and the image layer 0. The text at layer 1
  moves up past the text at layer 2, the image keeping its layer, and moves down past
  the image.
\<close>

theorem move_exchanges_with_neighbour_witness:
  "imageUrl (run [AddImage ''u'', AddTextBox 1, AddTextBox 2, AddTextBox 3, DeleteTextBox ''1''] initialScene) \<noteq> []
   \<and> distinct (map te_id (textElements (run [AddImage ''u'', AddTextBox 1, AddTextBox 2, AddTextBox 3, DeleteTextBox ''1''] initialScene)))
   \<and> distinct (map layer (textElements (run [AddImage ''u'', AddTextBox 1, AddTextBox 2, AddTextBox 3, DeleteTextBox ''1''] initialScene)))
   \<and> elements (run [AddImage ''u'', AddTextBox 1, AddTextBox 2, AddTextBox 3, DeleteTextBox ''1''] initialScene) = [TextRef ''2'', TextRef ''3'', ImageRef]
   \<and> all_layers (run [AddImage ''u'', AddTextBox 1, AddTextBox 2, AddTextBox 3, DeleteTextBox ''1''] initialScene) = [1, 2, 0]
   \<and> layer_of (run [AddImage ''u'', AddTextBox 1, AddTextBox 2, AddTextBox 3, DeleteTextBox ''1''] initialScene) (TextRef ''2'') = Some 1
   \<and> entry_layer (run [AddImage ''u'', AddTextBox 1, AddTextBox 2, AddTextBox 3, DeleteTextBox ''1''] initialScene) (TextRef ''2'') = Some 1
   \<and> (\<exists>Y\<in>set (ordering_entries (run [AddImage ''u'', AddTextBox 1, AddTextBox 2, AddTextBox 3, DeleteTextBox ''1''] initialScene)).
        entry_layer (run [AddImage ''u'', AddTextBox 1, AddTextBox 2, AddTextBox 3, DeleteTextBox ''1''] initialScene) Y = Some 2
        \<and> exchanged (run [AddImage ''u'', AddTextBox 1, AddTextBox 2, AddTextBox 3, DeleteTextBox ''1''] initialScene) (moveUp (TextRef ''2'') (run [AddImage ''u'', AddTextBox 1, AddTextBox 2, AddTextBox 3, DeleteTextBox ''1''] initialScene)) (TextRef ''2'') Y)
   \<and> all_layers (moveUp (TextRef ''2'') (run [AddImage ''u'', AddTextBox 1, AddTextBox 2, AddTextBox 3, DeleteTextBox ''1''] initialScene)) = [2, 1, 0]
   \<and> (\<exists>Y\<in>set (ordering_entries (run [AddImage ''u'', AddTextBox 1, AddTextBox 2, AddTextBox 3, DeleteTextBox ''1''] initialScene)).
        entry_layer (run [AddImage ''u'', AddTextBox 1, AddTextBox 2, AddTextBox 3, DeleteTextBox ''1''] initialScene) Y = Some 0
        \<and> exchanged (run [AddImage ''u'', AddTextBox 1, AddTextBox 2, AddTextBox 3, DeleteTextBox ''1''] initialScene) (moveDown (TextRef ''2'') (run [AddImage ''u'', AddTextBox 1, AddTextBox 2, AddTextBox 3, DeleteTextBox ''1''] initialScene)) (TextRef ''2'') Y)
   \<and> all_layers (moveDown (TextRef ''2'') (run [AddImage ''u'', AddTextBox 1, AddTextBox 2, AddTextBox 3, DeleteTextBox ''1''] initialScene)) = [0, 2, 1]
   \<and> elements (moveUp (TextRef ''2'') (run [AddImage ''u'', AddTextBox 1, AddTextBox 2, AddTextBox 3, DeleteTextBox ''1''] initialScene)) = ordering_entries (moveUp (TextRef ''2'') (run [AddImage ''u'', AddTextBox 1, AddTextBox 2, AddTextBox 3, DeleteTextBox ''1''] initialScene))
   \<and> all_layers (moveUp (TextRef ''2'') (run [AddImage ''u'', AddTextBox 1, AddTextBox 2, AddTextBox 3, DeleteTextBox ''1''] initialScene)) = ordering_layers (moveUp (TextRef ''2'') (run [AddImage ''u'', AddTextBox 1, AddTextBox 2, AddTextBox 3, DeleteTextBox ''1''] initialScene))
   \<and> layer_of (moveUp (TextRef ''2'') (run [AddImage ''u'', AddTextBox 1, AddTextBox 2, AddTextBox 3, DeleteTextBox ''1''] initialScene)) = entry_layer (moveUp (TextRef ''2'') (run [AddImage ''u'', AddTextBox 1, AddTextBox 2, AddTextBox 3, DeleteTextBox ''1''] initialScene))"
proof -
  let ?s = "run [AddImage ''u'', AddTextBox 1, AddTextBox 2, AddTextBox 3, DeleteTextBox ''1''] initialScene"
  have u: "imageUrl ?s \<noteq> []" by code_simp
  have di: "distinct (map te_id (textElements ?s))" by code_simp
  have dl: "distinct (map layer (textElements ?s))" by code_simp
  have el: "elements ?s = [TextRef ''2'', TextRef ''3'', ImageRef]" by code_simp
  have ll: "all_layers ?s = [1, 2, 0]" by code_simp
  have lo: "layer_of ?s (TextRef ''2'') = Some 1" by code_simp
  have lx: "entry_layer ?s (TextRef ''2'') = Some 1" by code_simp
  have al: "ordering_layers ?s = [1, 2, 0]" by code_simp
  have lu: "all_layers (moveUp (TextRef ''2'') ?s) = [2, 1, 0]" by code_simp
  have ld: "all_layers (moveDown (TextRef ''2'') ?s) = [0, 2, 1]" by code_simp
  have up: "\<not> (\<forall>l\<in>set (ordering_layers ?s). l \<le> 1)" unfolding al by simp
  have dn: "\<not> (\<forall>l\<in>set (ordering_layers ?s). 1 \<le> l)" unfolding al by simp
  have mn: "Min {l \<in> set (ordering_layers ?s). 1 < l} = 2"
  proof -
    have "{l \<in> set (ordering_layers ?s). 1 < l} = {2}" unfolding al by auto
    then show ?thesis by simp
  qed
  have mx: "Max {l \<in> set (ordering_layers ?s). l < 1} = 0"
  proof -
    have "{l \<in> set (ordering_layers ?s). l < 1} = {0}" unfolding al by auto
    then show ?thesis by simp
  qed
  note t = move_exchanges_with_neighbour [OF di dl lx]
  from t have e1: "\<exists>Y\<in>set (ordering_entries ?s).
        entry_layer ?s Y = Some 2 \<and> exchanged ?s (moveUp (TextRef ''2'') ?s) (TextRef ''2'') Y"
    by (simp only: up mn if_False simp_thms)
  from t have e2: "\<exists>Y\<in>set (ordering_entries ?s).
        entry_layer ?s Y = Some 0 \<and> exchanged ?s (moveDown (TextRef ''2'') ?s) (TextRef ''2'') Y"
    by (simp only: dn mx if_False simp_thms)
  from t u have e3: "elements (moveUp (TextRef ''2'') ?s) = ordering_entries (moveUp (TextRef ''2'') ?s)
     \<and> all_layers (moveUp (TextRef ''2'') ?s) = ordering_layers (moveUp (TextRef ''2'') ?s)
     \<and> layer_of (moveUp (TextRef ''2'') ?s) = entry_layer (moveUp (TextRef ''2'') ?s)"
    by blast
  from u di dl el ll lo lx e1 lu e2 ld e3 show ?thesis by (intro conjI) simp_all
qed

text \<open>
  C3 as stated, for every scene, fails in three ways. Where two texts share a layer:
  with an image loaded, layers 0, 0, 1 on the texts and 1 on the image, moving the third
  text down gives both other texts layer 1, so two neighbours change and the multiset of
  layers changes. Where two texts share an id: moving that id up sets both to layer 1.
  Where no image is loaded: the one text of the scene, at layer 1, has no element below
  it, and its move down is no no-op but takes it to layer 0, the layer kept for the
  image.
\<close>

theorem move_not_a_pairwise_swap:
  "all_layers (run [AddImage ''u'', AddTextBox 1, AddTextBox 2, MoveImageLayerUp, AddTextBox 3] initialScene) = [0, 0, 1, 1]
   \<and> all_layers (moveDown (TextRef ''3'') (run [AddImage ''u'', AddTextBox 1, AddTextBox 2, MoveImageLayerUp, AddTextBox 3] initialScene)) = [1, 1, 0, 1]
   \<and> mset (all_layers (moveDown (TextRef ''3'') (run [AddImage ''u'', AddTextBox 1, AddTextBox 2, MoveImageLayerUp, AddTextBox 3] initialScene))) \<noteq> mset (all_layers (run [AddImage ''u'', AddTextBox 1, AddTextBox 2, MoveImageLayerUp, AddTextBox 3] initialScene))
   \<and> all_layers (run [AddImage ''u'', AddTextBox 1, AddTextBox 1] initialScene) = [0, 1, 0]
   \<and> all_layers (moveUp (TextRef ''1'') (run [AddImage ''u'', AddTextBox 1, AddTextBox 1] initialScene)) = [1, 1, 0]
   \<and> mset (all_layers (moveUp (TextRef ''1'') (run [AddImage ''u'', AddTextBox 1, AddTextBox 1] initialScene))) \<noteq> mset (all_layers (run [AddImage ''u'', AddTextBox 1, AddTextBox 1] initialScene))
   \<and> elements (run [AddTextBox 1, AddTextBox 2, DeleteTextBox ''1''] initialScene) = [TextRef ''2'']
   \<and> all_layers (run [AddTextBox 1, AddTextBox 2, DeleteTextBox ''1''] initialScene) = [1]
   \<and> all_layers (moveDown (TextRef ''2'') (run [AddTextBox 1, AddTextBox 2, DeleteTextBox ''1''] initialScene)) = [0]
   \<and> moveDown (TextRef ''2'') (run [AddTextBox 1, AddTextBox 2, DeleteTextBox ''1''] initialScene) \<noteq> run [AddTextBox 1, AddTextBox 2, DeleteTextBox ''1''] initialScene"
proof -
  have 1: "all_layers (run [AddImage ''u'', AddTextBox 1, AddTextBox 2, MoveImageLayerUp, AddTextBox 3] initialScene) = [0, 0, 1, 1]" by code_simp
  have 2: "all_layers (moveDown (TextRef ''3'') (run [AddImage ''u'', AddTextBox 1, AddTextBox 2, MoveImageLayerUp, AddTextBox 3] initialScene)) = [1, 1, 0, 1]" by code_simp
  have 3: "mset [1, 1, 0, 1 :: int] \<noteq> mset [0, 0, 1, 1 :: int]"
  proof
    assume "mset [1, 1, 0, 1 :: int] = mset [0, 0, 1, 1 :: int]"
    then have "count (mset [1, 1, 0, 1 :: int]) 0 = count (mset [0, 0, 1, 1 :: int]) 0" by simp
    then show False by simp
  qed
  have 4: "all_layers (run [AddImage ''u'', AddTextBox 1, AddTextBox 1] initialScene) = [0, 1, 0]" by code_simp
  have 5: "all_layers (moveUp (TextRef ''1'') (run [AddImage ''u'', AddTextBox 1, AddTextBox 1] initialScene)) = [1, 1, 0]" by code_simp
  have 6: "mset [1, 1, 0 :: int] \<noteq> mset [0, 1, 0 :: int]"
  proof
    assume "mset [1, 1, 0 :: int] = mset [0, 1, 0 :: int]"
    then have "count (mset [1, 1, 0 :: int]) 0 = count (mset [0, 1, 0 :: int]) 0" by simp
    then show False by simp
  qed
  have m3: "mset (all_layers (moveDown (TextRef ''3'') (run [AddImage ''u'', AddTextBox 1, AddTextBox 2, MoveImageLayerUp, AddTextBox 3] initialScene))) \<noteq> mset (all_layers (run [AddImage ''u'', AddTextBox 1, AddTextBox 2, MoveImageLayerUp, AddTextBox 3] initialScene))"
    unfolding 1 2 by (rule 3)
  have m6: "mset (all_layers (moveUp (TextRef ''1'') (run [AddImage ''u'', AddTextBox 1, AddTextBox 1] initialScene))) \<noteq> mset (all_layers (run [AddImage ''u'', AddTextBox 1, AddTextBox 1] initialScene))"
    unfolding 4 5 by (rule 6)
  have 7: "elements (run [AddTextBox 1, AddTextBox 2, DeleteTextBox ''1''] initialScene) = [TextRef ''2'']" by code_simp
  have 8: "all_layers (run [AddTextBox 1, AddTextBox 2, DeleteTextBox ''1''] initialScene) = [1]" by code_simp
  have 9: "all_layers (moveDown (TextRef ''2'') (run [AddTextBox 1, AddTextBox 2, DeleteTextBox ''1''] initialScene)) = [0]" by code_simp
  have 10: "moveDown (TextRef ''2'') (run [AddTextBox 1, AddTextBox 2, DeleteTextBox ''1''] initialScene) \<noteq> run [AddTextBox 1, AddTextBox 2, DeleteTextBox ''1''] initialScene"
  proof
    assume "moveDown (TextRef ''2'') (run [AddTextBox 1, AddTextBox 2, DeleteTextBox ''1''] initialScene) = (run [AddTextBox 1, AddTextBox 2, DeleteTextBox ''1''] initialScene)"
    then have "all_layers (moveDown (TextRef ''2'') (run [AddTextBox 1, AddTextBox 2, DeleteTextBox ''1''] initialScene)) = all_layers (run [AddTextBox 1, AddTextBox 2, DeleteTextBox ''1''] initialScene)" by simp
    then show False unfolding 8 9 by simp
  qed
  from 1 2 m3 4 5 m6 7 8 9 10 show ?thesis by (intro conjI)
qed

subsection \<open>A move up followed by a move down\<close>

lemma up_down_text:
  assumes di: "distinct (map te_id (textElements s))"
    and dl: "distinct (map layer (textElements s))"
    and lx: "entry_layer s (TextRef i) = Some lx"
    and above: "\<exists>l\<in>set (ordering_layers s). lx < l"
  shows "moveLayerDown i (moveLayerUp i s) = s"
proof -
  let ?ts = "textElements s" and ?il = "imageLayer s"
  from entry_layer_text [OF lx] obtain x
    where f: "find (\<lambda>t. te_id t = i) ?ts = Some x" and x: "layer x = lx" by blast
  from find_id_Some [OF f] have xm: "x \<in> set ?ts" "te_id x = i" by simp_all
  have other: "\<And>t. t \<in> set ?ts \<Longrightarrow> te_id t \<noteq> i \<Longrightarrow> layer t \<noteq> lx"
    using layer_inj [OF dl _ xm(1)] xm(2) x by auto
  from moveLayerUp_cases [OF f] consider
    (noop) "\<forall>t\<in>set ?ts. layer t \<le> layer x" "?il \<le> layer x"
  | (totext) y where "y \<in> set ?ts" "layer x < layer y"
      "\<forall>t\<in>set ?ts. layer x < layer t \<longrightarrow> layer y \<le> layer t"
      "layer x < ?il \<longrightarrow> layer y \<le> ?il"
      "moveLayerUp i s = s\<lparr>textElements := map (\<lambda>t. if te_id t = i then t\<lparr>layer := layer y\<rparr>
          else if layer t = layer y \<and> te_id t \<noteq> i then t\<lparr>layer := layer x\<rparr> else t) ?ts\<rparr>"
  | (toimage) "layer x < ?il" "\<forall>t\<in>set ?ts. layer x < layer t \<longrightarrow> ?il < layer t"
      "moveLayerUp i s = s\<lparr>imageLayer := layer x,
          textElements := map (\<lambda>t. if te_id t = i then t\<lparr>layer := ?il\<rparr>
          else if layer t = ?il \<and> te_id t \<noteq> i then t\<lparr>layer := layer x\<rparr> else t) ?ts\<rparr>"
    by blast
  then show ?thesis
  proof cases
    case noop
    with above x show ?thesis by (auto simp: ordering_layers_def)
  next
    case totext
    define L where "L = layer y"
    define G where "G = (\<lambda>t::TextElement. if te_id t = i then t\<lparr>layer := L\<rparr>
          else if layer t = L \<and> te_id t \<noteq> i then t\<lparr>layer := lx\<rparr> else t)"
    have s': "moveLayerUp i s = s\<lparr>textElements := map G ?ts\<rparr>"
      unfolding totext(5) G_def L_def x ..
    have lt: "lx < L" using totext(2) x by (simp add: L_def)
    have yi: "te_id y \<noteq> i" using id_inj [OF di totext(1) xm(1)] xm(2) totext(2) by auto
    have Gid: "\<And>t. te_id (G t) = te_id t" by (simp add: G_def)
    have Gx: "G x = x\<lparr>layer := L\<rparr>" using xm(2) by (simp add: G_def)
    have Gy: "G y = y\<lparr>layer := lx\<rparr>" using yi by (simp add: G_def L_def)
    define s' where "s' = s\<lparr>textElements := map G ?ts\<rparr>"
    have ts': "textElements s' = map G ?ts" and il': "imageLayer s' = ?il"
      by (simp_all add: s'_def)
    have f': "find (\<lambda>t. te_id t = i) (textElements s') = Some (G x)"
      by (simp add: ts' find_id_map [of G, OF Gid] f)
    have Gl: "\<And>t. t \<in> set ?ts \<Longrightarrow> layer (G t) < L \<Longrightarrow> layer (G t) \<le> lx"
    proof -
      fix t assume t: "t \<in> set ?ts" "layer (G t) < L"
      show "layer (G t) \<le> lx"
      proof (cases "te_id t = i")
        case True
        with t(2) show ?thesis by (simp add: G_def)
      next
        case False
        show ?thesis
        proof (cases "layer t = L")
          case True
          with False show ?thesis by (simp add: G_def)
        next
          case nL: False
          with False have "G t = t" by (simp add: G_def)
          with t(2) have "layer t < L" by simp
          with totext(3) t(1) x have "\<not> lx < layer t" by (auto simp: L_def)
          with \<open>G t = t\<close> show ?thesis by simp
        qed
      qed
    qed
    from moveLayerDown_cases [OF f'] consider
      (noop') "\<forall>t\<in>set (textElements s'). layer (G x) \<le> layer t"
    | (totext') y' where "y' \<in> set (textElements s')" "layer y' < layer (G x)"
        "\<forall>t\<in>set (textElements s'). layer t < layer (G x) \<longrightarrow> layer t \<le> layer y'"
        "moveLayerDown i s' =
           s'\<lparr>textElements :=
             map (\<lambda>t. if te_id t = i then t\<lparr>layer := layer y'\<rparr>
                  else if layer t = layer y' \<and> te_id t \<noteq> i then t\<lparr>layer := layer (G x)\<rparr> else t)
               (textElements s')\<rparr>"
    | (toimage') "imageLayer s' < layer (G x)"
        "\<forall>t\<in>set (textElements s'). layer t < layer (G x) \<longrightarrow> layer t < imageLayer s'"
      by blast
    note c3 = this
    have Gym: "G y \<in> set (textElements s')" using totext(1) by (simp add: ts')
    show ?thesis
    proof (cases rule: c3)
      case noop'
      with Gym have "layer (G x) \<le> layer (G y)" by blast
      with lt show ?thesis by (simp add: Gx Gy)
    next
      case toimage'
      from toimage'(2) Gym have "layer (G y) < layer (G x) \<longrightarrow> layer (G y) < imageLayer s'"
        by blast
      with lt have "lx < ?il" by (simp add: Gx Gy il')
      with totext(4) x have "L \<le> ?il" by (simp add: L_def)
      with toimage'(1) show ?thesis by (simp add: il' Gx)
    next
      case totext'
      from totext'(3) Gym have "layer (G y) < layer (G x) \<longrightarrow> layer (G y) \<le> layer y'"
        by blast
      with lt have ge: "lx \<le> layer y'" by (simp add: Gx Gy)
      from totext'(1) obtain t0 where t0: "t0 \<in> set ?ts" "y' = G t0" by (auto simp: ts')
      with totext'(2) Gl [OF t0(1)] have "layer y' \<le> lx" by (simp add: Gx)
      with ge have ly: "layer y' = lx" by simp
      define G' where "G' = (\<lambda>t::TextElement. if te_id t = i then t\<lparr>layer := layer y'\<rparr>
          else if layer t = layer y' \<and> te_id t \<noteq> i then t\<lparr>layer := layer (G x)\<rparr> else t)"
      have gg: "\<And>t. t \<in> set ?ts \<Longrightarrow> G' (G t) = t"
      proof -
        fix t assume t: "t \<in> set ?ts"
        show "G' (G t) = t"
        proof (cases "te_id t = i")
          case True
          with id_inj [OF di t xm(1)] xm(2) have "t = x" by simp
          then show ?thesis using xm(2) x by (simp add: G'_def Gx ly)
        next
          case False
          note ni = this
          from other [OF t ni] have nlx: "layer t \<noteq> lx" .
          show ?thesis
          proof (cases "layer t = L")
            case True
            with ni have "G t = t\<lparr>layer := lx\<rparr>" by (simp add: G_def)
            with ni True show ?thesis by (simp add: G'_def Gx ly)
          next
            case False
            with ni have "G t = t" by (simp add: G_def)
            with ni nlx show ?thesis by (simp add: G'_def ly)
          qed
        qed
      qed
      have "map G' (map G ?ts) = map (\<lambda>t. G' (G t)) ?ts" by simp
      also have "\<dots> = ?ts" by (rule map_idI) (rule gg)
      finally have rt: "map G' (map G ?ts) = ?ts" .
      have "moveLayerDown i s' = s'\<lparr>textElements := map G' (textElements s')\<rparr>"
        unfolding G'_def by (rule totext'(4))
      then have "moveLayerDown i s' = s'\<lparr>textElements := ?ts\<rparr>"
        unfolding ts' rt .
      then have "moveLayerDown i s' = s"
        by (simp add: s'_def)
      then show ?thesis by (simp add: s' s'_def)
    qed
  next
    case toimage
    define g where "g = (\<lambda>t::TextElement. if te_id t = i then t\<lparr>layer := ?il\<rparr>
          else if layer t = ?il \<and> te_id t \<noteq> i then t\<lparr>layer := lx\<rparr> else t)"
    define s' where "s' = s\<lparr>imageLayer := lx, textElements := map g ?ts\<rparr>"
    have s': "moveLayerUp i s = s'"
      unfolding toimage(3) g_def s'_def x ..
    have ts': "textElements s' = map g ?ts" and il': "imageLayer s' = lx"
      by (simp_all add: s'_def)
    have lt: "lx < ?il" using toimage(1) x by simp
    have gid: "\<And>t. te_id (g t) = te_id t" by (simp add: g_def)
    have gx: "g x = x\<lparr>layer := ?il\<rparr>" using xm(2) by (simp add: g_def)
    have gt: "\<And>t. t \<in> set ?ts \<Longrightarrow> te_id t \<noteq> i \<Longrightarrow> g t = t"
    proof -
      fix t assume t: "t \<in> set ?ts" "te_id t \<noteq> i"
      have "layer t \<noteq> ?il"
      proof
        assume "layer t = ?il"
        with toimage(2) t(1) lt x show False by auto
      qed
      with t(2) show "g t = t" by (simp add: g_def)
    qed
    have f': "find (\<lambda>t. te_id t = i) (textElements s') = Some (g x)"
      by (simp add: ts' find_id_map [of g, OF gid] f)
    from moveLayerDown_cases [OF f'] consider
      (noop') "layer (g x) \<le> imageLayer s'"
    | (totext') y' where "y' \<in> set (textElements s')" "layer y' < layer (g x)"
        "imageLayer s' < layer (g x) \<longrightarrow> imageLayer s' \<le> layer y'"
    | (toimage') "moveLayerDown i s' =
           s'\<lparr>imageLayer := layer (g x), textElements :=
             map (\<lambda>t. if te_id t = i then t\<lparr>layer := imageLayer s'\<rparr>
                  else if layer t = imageLayer s' \<and> te_id t \<noteq> i then t\<lparr>layer := layer (g x)\<rparr> else t)
               (textElements s')\<rparr>"
      by blast
    note c3 = this
    show ?thesis
    proof (cases rule: c3)
      case noop'
      with lt show ?thesis by (simp add: gx il')
    next
      case totext'
      from totext'(3) lt have ge: "lx \<le> layer y'" by (simp add: gx il')
      from totext'(1) obtain t0 where t0: "t0 \<in> set ?ts" "y' = g t0" by (auto simp: ts')
      have ni: "te_id t0 \<noteq> i"
      proof
        assume "te_id t0 = i"
        with t0(2) have "layer y' = ?il" by (simp add: g_def)
        with totext'(2) show False by (simp add: gx)
      qed
      from gt [OF t0(1) ni] t0(2) have y't: "y' = t0" by simp
      from other [OF t0(1) ni] ge y't have "lx < layer t0" by simp
      with toimage(2) t0(1) x have "?il < layer t0" by simp
      with totext'(2) y't show ?thesis by (simp add: gx)
    next
      case toimage'
      define G' where "G' = (\<lambda>t::TextElement. if te_id t = i then t\<lparr>layer := imageLayer s'\<rparr>
          else if layer t = imageLayer s' \<and> te_id t \<noteq> i then t\<lparr>layer := layer (g x)\<rparr> else t)"
      have gg: "\<And>t. t \<in> set ?ts \<Longrightarrow> G' (g t) = t"
      proof -
        fix t assume t: "t \<in> set ?ts"
        show "G' (g t) = t"
        proof (cases "te_id t = i")
          case True
          with id_inj [OF di t xm(1)] xm(2) have "t = x" by simp
          then show ?thesis using xm(2) x by (simp add: G'_def gx il')
        next
          case False
          from other [OF t False] gt [OF t False] False show ?thesis
            by (simp add: G'_def il')
        qed
      qed
      have "map G' (map g ?ts) = map (\<lambda>t. G' (g t)) ?ts" by simp
      also have "\<dots> = ?ts" by (rule map_idI) (rule gg)
      finally have rt: "map G' (map g ?ts) = ?ts" .
      from toimage' have "moveLayerDown i s' =
          s'\<lparr>imageLayer := layer (g x), textElements := map G' (textElements s')\<rparr>"
        unfolding G'_def .
      then have "moveLayerDown i s' = s'\<lparr>imageLayer := layer (g x), textElements := ?ts\<rparr>"
        unfolding ts' rt .
      then have "moveLayerDown i s' = s"
        by (simp add: s'_def gx)
      then show ?thesis by (simp add: s')
    qed
  qed
qed

lemma up_down_image:
  assumes di: "distinct (map te_id (textElements s))"
    and da: "distinct (ordering_layers s)"
    and above: "\<exists>l\<in>set (ordering_layers s). imageLayer s < l"
  shows "moveImageLayerDown (moveImageLayerUp s) = s"
proof -
  let ?ts = "textElements s" and ?il = "imageLayer s"
  have img: "\<And>t. t \<in> set ?ts \<Longrightarrow> layer t \<noteq> ?il"
    using da by (force simp: ordering_layers_def image_iff)
  from moveImageLayerUp_cases [of s] consider
    (noop) "\<forall>t\<in>set ?ts. layer t \<le> ?il"
  | (swap) y where "y \<in> set ?ts" "?il < layer y"
      "\<forall>t\<in>set ?ts. ?il < layer t \<longrightarrow> layer y \<le> layer t"
      "moveImageLayerUp s = s\<lparr>imageLayer := layer y,
         textElements := map (\<lambda>t. if te_id t = te_id y then t\<lparr>layer := ?il\<rparr> else t) ?ts\<rparr>"
    by blast
  then show ?thesis
  proof cases
    case noop
    with above show ?thesis by (auto simp: ordering_layers_def)
  next
    case swap
    define h where "h = (\<lambda>t::TextElement. if te_id t = te_id y then t\<lparr>layer := ?il\<rparr> else t)"
    define s' where "s' = s\<lparr>imageLayer := layer y, textElements := map h ?ts\<rparr>"
    have s': "moveImageLayerUp s = s'"
      unfolding swap(4) h_def s'_def ..
    have ts': "textElements s' = map h ?ts" and il': "imageLayer s' = layer y"
      by (simp_all add: s'_def)
    have hy: "h y = y\<lparr>layer := ?il\<rparr>" by (simp add: h_def)
    have hym: "h y \<in> set (textElements s')" using swap(1) by (simp add: ts')
    from moveImageLayerDown_cases [of s'] consider
      (noop') "\<forall>t\<in>set (textElements s'). imageLayer s' \<le> layer t"
    | (swap') y' where "y' \<in> set (textElements s')" "layer y' < imageLayer s'"
        "\<forall>t\<in>set (textElements s'). layer t < imageLayer s' \<longrightarrow> layer t \<le> layer y'"
        "moveImageLayerDown s' = s'\<lparr>imageLayer := layer y',
           textElements := map (\<lambda>t. if te_id t = te_id y' then t\<lparr>layer := imageLayer s'\<rparr> else t)
             (textElements s')\<rparr>"
      by blast
    note c2 = this
    show ?thesis
    proof (cases rule: c2)
      case noop'
      with hym have "imageLayer s' \<le> layer (h y)" by blast
      with swap(2) show ?thesis by (simp add: il' hy)
    next
      case swap'
      from swap'(3) hym have "layer (h y) < imageLayer s' \<longrightarrow> layer (h y) \<le> layer y'" by blast
      with swap(2) have ge: "?il \<le> layer y'" by (simp add: il' hy)
      from swap'(1) obtain t0 where t0: "t0 \<in> set ?ts" "y' = h t0" by (auto simp: ts')
      have same: "te_id t0 = te_id y"
      proof (rule ccontr)
        assume "te_id t0 \<noteq> te_id y"
        with t0(2) have y't: "y' = t0" by (simp add: h_def)
        with ge img [OF t0(1)] have "?il < layer t0" by simp
        with swap(3) t0(1) have "layer y \<le> layer t0" by simp
        with swap'(2) y't show False by (simp add: il')
      qed
      with id_inj [OF di t0(1) swap(1)] have "t0 = y" by simp
      with t0(2) have y': "y' = y\<lparr>layer := ?il\<rparr>" by (simp add: hy)
      define h' where "h' = (\<lambda>t::TextElement. if te_id t = te_id y' then t\<lparr>layer := imageLayer s'\<rparr> else t)"
      have hh: "\<And>t. t \<in> set ?ts \<Longrightarrow> h' (h t) = t"
      proof -
        fix t assume t: "t \<in> set ?ts"
        show "h' (h t) = t"
        proof (cases "te_id t = te_id y")
          case True
          with id_inj [OF di t swap(1)] have "t = y" by simp
          then show ?thesis by (simp add: h'_def hy y' il')
        next
          case False
          then show ?thesis by (simp add: h'_def h_def y')
        qed
      qed
      have "map h' (map h ?ts) = map (\<lambda>t. h' (h t)) ?ts" by simp
      also have "\<dots> = ?ts" by (rule map_idI) (rule hh)
      finally have rt: "map h' (map h ?ts) = ?ts" .
      from swap'(4) have "moveImageLayerDown s' =
          s'\<lparr>imageLayer := layer y', textElements := map h' (textElements s')\<rparr>"
        unfolding h'_def .
      then have "moveImageLayerDown s' = s'\<lparr>imageLayer := layer y', textElements := ?ts\<rparr>"
        unfolding ts' rt .
      then have "moveImageLayerDown s' = s"
        by (simp add: s'_def y')
      then show ?thesis by (simp add: s')
    qed
  qed
qed

text \<open>
  C4, as amended. In a scene whose text ids are pairwise distinct and whose elements, the
  texts and the image when one is loaded, hold pairwise distinct layers, for every
  element \<open>X\<close> of the scene that is not at the top of the order (some text's layer or
  the image's layer, which the order holds whether or not an image is loaded, is greater
  than \<open>X\<close>'s), the move up of \<open>X\<close> followed at once by the move down of \<open>X\<close>
  gives back the scene it started from: every layer, of the texts and of the image, and
  every other field.
\<close>

theorem move_up_then_down_restores:
  assumes "distinct (map te_id (textElements s))" and "distinct (all_layers s)"
    and "layer_of s X = Some lx" and "\<exists>l\<in>set (ordering_layers s). lx < l"
  shows "moveDown X (moveUp X s) = s"
proof (cases X)
  case (TextRef i)
  from assms(2) have "distinct (map layer (textElements s))"
    by (simp add: all_layers_def)
  moreover from TextRef assms(3) have "entry_layer s (TextRef i) = Some lx" by simp
  ultimately show ?thesis
    using TextRef assms(1,4) up_down_text [of s i lx] by simp
next
  case ImageRef
  with assms(3) have u: "imageUrl s \<noteq> []" and lx: "lx = imageLayer s"
    by (simp_all split: if_splits)
  from u assms(2) have "distinct (ordering_layers s)"
    by (simp add: all_layers_def ordering_layers_def)
  with ImageRef lx assms(1,4) up_down_image [of s] show ?thesis by simp
qed

text \<open>
  Two instances. With two texts at layers 0 and 1 and no image, the text at layer 0
  moves up, which changes the scene, and down again. With an image loaded at layer 0
  below a text at layer 1, the image moves up, which changes the scene, and down again.
\<close>

theorem move_up_then_down_restores_witness:
  "distinct (map te_id (textElements (run [AddTextBox 1, AddTextBox 2] initialScene)))
   \<and> all_layers (run [AddTextBox 1, AddTextBox 2] initialScene) = [0, 1]
   \<and> distinct (all_layers (run [AddTextBox 1, AddTextBox 2] initialScene))
   \<and> layer_of (run [AddTextBox 1, AddTextBox 2] initialScene) (TextRef ''1'') = Some 0
   \<and> moveUp (TextRef ''1'') (run [AddTextBox 1, AddTextBox 2] initialScene) \<noteq> run [AddTextBox 1, AddTextBox 2] initialScene
   \<and> moveDown (TextRef ''1'') (moveUp (TextRef ''1'') (run [AddTextBox 1, AddTextBox 2] initialScene)) = run [AddTextBox 1, AddTextBox 2] initialScene
   \<and> distinct (map te_id (textElements (run [AddImage ''u'', AddTextBox 1, AddTextBox 2, DeleteTextBox ''1''] initialScene)))
   \<and> all_layers (run [AddImage ''u'', AddTextBox 1, AddTextBox 2, DeleteTextBox ''1''] initialScene) = [1, 0]
   \<and> distinct (all_layers (run [AddImage ''u'', AddTextBox 1, AddTextBox 2, DeleteTextBox ''1''] initialScene))
   \<and> layer_of (run [AddImage ''u'', AddTextBox 1, AddTextBox 2, DeleteTextBox ''1''] initialScene) ImageRef = Some 0
   \<and> moveUp ImageRef (run [AddImage ''u'', AddTextBox 1, AddTextBox 2, DeleteTextBox ''1''] initialScene) \<noteq> run [AddImage ''u'', AddTextBox 1, AddTextBox 2, DeleteTextBox ''1''] initialScene
   \<and> moveDown ImageRef (moveUp ImageRef (run [AddImage ''u'', AddTextBox 1, AddTextBox 2, DeleteTextBox ''1''] initialScene)) = run [AddImage ''u'', AddTextBox 1, AddTextBox 2, DeleteTextBox ''1''] initialScene"
proof -
  let ?s = "run [AddTextBox 1, AddTextBox 2] initialScene"
  let ?r = "run [AddImage ''u'', AddTextBox 1, AddTextBox 2, DeleteTextBox ''1''] initialScene"
  have di: "distinct (map te_id (textElements ?s))" by code_simp
  have al: "all_layers ?s = [0, 1]" by code_simp
  have da: "distinct (all_layers ?s)" unfolding al by simp
  have lx: "layer_of ?s (TextRef ''1'') = Some 0" by code_simp
  have ol: "ordering_layers ?s = [0, 1, 0]" by code_simp
  have ab: "\<exists>l\<in>set (ordering_layers ?s). 0 < l" unfolding ol by simp
  have mv: "moveUp (TextRef ''1'') ?s \<noteq> ?s"
  proof
    assume "moveUp (TextRef ''1'') ?s = ?s"
    then have "all_layers (moveUp (TextRef ''1'') ?s) = all_layers ?s" by simp
    moreover have "all_layers (moveUp (TextRef ''1'') ?s) = [1, 0]" by code_simp
    ultimately show False unfolding al by simp
  qed
  have di2: "distinct (map te_id (textElements ?r))" by code_simp
  have al2: "all_layers ?r = [1, 0]" by code_simp
  have da2: "distinct (all_layers ?r)" unfolding al2 by simp
  have lx2: "layer_of ?r ImageRef = Some 0" by code_simp
  have ol2: "ordering_layers ?r = [1, 0]" by code_simp
  have ab2: "\<exists>l\<in>set (ordering_layers ?r). 0 < l" unfolding ol2 by simp
  have mv2: "moveUp ImageRef ?r \<noteq> ?r"
  proof
    assume "moveUp ImageRef ?r = ?r"
    then have "all_layers (moveUp ImageRef ?r) = all_layers ?r" by simp
    moreover have "all_layers (moveUp ImageRef ?r) = [0, 1]" by code_simp
    ultimately show False unfolding al2 by simp
  qed
  from move_up_then_down_restores [OF di da lx ab] move_up_then_down_restores [OF di2 da2 lx2 ab2]
    di al da lx mv di2 al2 da2 lx2 mv2
  show ?thesis by (intro conjI)
qed

text \<open>
  C4 as stated, for every element, fails for the element that holds the greatest layer:
  its move up does nothing and its move down then exchanges it with the element below.
  With two texts at layers 0 and 1 and no image, all distinct, the two moves on the upper
  text leave it at 0 and the other at 1. It also fails where two texts share an id: with
  layers 1 and 2 on two texts of one id, the two moves end with both texts at 0.
\<close>

theorem move_up_then_down_not_restoring:
  "distinct (all_layers (run [AddTextBox 1, AddTextBox 2] initialScene))
   \<and> all_layers (run [AddTextBox 1, AddTextBox 2] initialScene) = [0, 1]
   \<and> layer_of (run [AddTextBox 1, AddTextBox 2] initialScene) (TextRef ''2'') = Some 1
   \<and> moveUp (TextRef ''2'') (run [AddTextBox 1, AddTextBox 2] initialScene) = run [AddTextBox 1, AddTextBox 2] initialScene
   \<and> all_layers (moveDown (TextRef ''2'') (moveUp (TextRef ''2'') (run [AddTextBox 1, AddTextBox 2] initialScene))) = [1, 0]
   \<and> moveDown (TextRef ''2'') (moveUp (TextRef ''2'') (run [AddTextBox 1, AddTextBox 2] initialScene)) \<noteq> run [AddTextBox 1, AddTextBox 2] initialScene
   \<and> distinct (all_layers (run [AddTextBox 1, AddTextBox 5, AddTextBox 5, DeleteTextBox ''1''] initialScene))
   \<and> all_layers (run [AddTextBox 1, AddTextBox 5, AddTextBox 5, DeleteTextBox ''1''] initialScene) = [1, 2]
   \<and> layer_of (run [AddTextBox 1, AddTextBox 5, AddTextBox 5, DeleteTextBox ''1''] initialScene) (TextRef ''5'') = Some 1
   \<and> all_layers (moveDown (TextRef ''5'') (moveUp (TextRef ''5'') (run [AddTextBox 1, AddTextBox 5, AddTextBox 5, DeleteTextBox ''1''] initialScene))) = [0, 0]
   \<and> moveDown (TextRef ''5'') (moveUp (TextRef ''5'') (run [AddTextBox 1, AddTextBox 5, AddTextBox 5, DeleteTextBox ''1''] initialScene)) \<noteq> run [AddTextBox 1, AddTextBox 5, AddTextBox 5, DeleteTextBox ''1''] initialScene"
proof -
  let ?s = "run [AddTextBox 1, AddTextBox 2] initialScene"
  let ?r = "run [AddTextBox 1, AddTextBox 5, AddTextBox 5, DeleteTextBox ''1''] initialScene"
  have 2: "all_layers ?s = [0, 1]" by code_simp
  have 1: "distinct (all_layers ?s)" unfolding 2 by simp
  have lx: "layer_of ?s (TextRef ''2'') = Some 1" by code_simp
  have up: "moveUp (TextRef ''2'') ?s = ?s" by code_simp
  have 3: "all_layers (moveDown (TextRef ''2'') (moveUp (TextRef ''2'') ?s)) = [1, 0]"
    by code_simp
  have 4: "moveDown (TextRef ''2'') (moveUp (TextRef ''2'') ?s) \<noteq> ?s"
  proof
    assume "moveDown (TextRef ''2'') (moveUp (TextRef ''2'') ?s) = ?s"
    then have "all_layers (moveDown (TextRef ''2'') (moveUp (TextRef ''2'') ?s)) = all_layers ?s"
      by simp
    then show False unfolding 2 3 by simp
  qed
  have 6: "all_layers ?r = [1, 2]" by code_simp
  have 5: "distinct (all_layers ?r)" unfolding 6 by simp
  have lr: "layer_of ?r (TextRef ''5'') = Some 1" by code_simp
  have 7: "all_layers (moveDown (TextRef ''5'') (moveUp (TextRef ''5'') ?r)) = [0, 0]"
    by code_simp
  have 8: "moveDown (TextRef ''5'') (moveUp (TextRef ''5'') ?r) \<noteq> ?r"
  proof
    assume "moveDown (TextRef ''5'') (moveUp (TextRef ''5'') ?r) = ?r"
    then have "all_layers (moveDown (TextRef ''5'') (moveUp (TextRef ''5'') ?r)) = all_layers ?r"
      by simp
    then show False unfolding 6 7 by simp
  qed
  from 1 2 lx up 3 4 5 6 lr 7 8 show ?thesis by (intro conjI)
qed

end
